theory Spec2Isabelle
  imports Complex_Main "HOL-Library.AList"
begin

section \<open>Python values used by \<open>plot_utils.py\<close>\<close>

text \<open>
  Exceptions are values.  \<open>KeyError\<close> (a subclass of Python's \<open>LookupError\<close>) carries
  the missing key, \<open>ValueError\<close> and \<open>AttributeError\<close> carry their message.
\<close>

datatype error =
    KeyError string
  | ValueError string
  | AttributeError string
  | IndexError
  | FileNotFoundError string


text \<open>
  A Python \<open>dict\<close> is an association list with distinct keys in insertion order;
  \<open>d[k] = v\<close> is \<open>AList.update k v d\<close> and \<open>d[k]\<close> raises \<open>KeyError\<close> on a missing key.
\<close>

type_synonym ('k, 'v) dict = "('k \<times> 'v) list"

definition dict_get :: "(string, 'v) dict \<Rightarrow> string \<Rightarrow> error + 'v" where
  "dict_get d k = (case map_of d k of None \<Rightarrow> Inl (KeyError k) | Some v \<Rightarrow> Inr v)"

definition dict_values :: "('k, 'v) dict \<Rightarrow> 'v list" where
  "dict_values d = map snd d"

definition dict_keys :: "('k, 'v) dict \<Rightarrow> 'k list" where
  "dict_keys d = map fst d"

definition py_index :: "'a list \<Rightarrow> nat \<Rightarrow> error + 'a" where
  "py_index xs i = (if i < length xs then Inr (xs ! i) else Inl IndexError)"

subsection \<open>Strings\<close>

text \<open>
  Text is ASCII: the whitespace of \<open>str.split()\<close> is tab, line feed, vertical tab, form
  feed, carriage return, the four separators 0x1C..0x1F and space; \<open>str.upper()\<close> maps
  \<open>a..z\<close> to \<open>A..Z\<close>.
\<close>

definition nl :: string where
  "nl = [CHR 0x0A]"

text \<open>\<open>repr(s)\<close> of a string without quotes or escapes: the string between single quotes.\<close>

definition quoted :: "string \<Rightarrow> string" where
  "quoted s = [CHR 0x27] @ s @ [CHR 0x27]"

definition isspace :: "char \<Rightarrow> bool" where
  "isspace c \<longleftrightarrow>
     c \<in> {CHR 0x09, CHR 0x0A, CHR 0x0B, CHR 0x0C, CHR 0x0D,
          CHR 0x1C, CHR 0x1D, CHR 0x1E, CHR 0x1F, CHR 0x20}"

definition upper_char :: "char \<Rightarrow> char" where
  "upper_char c =
     (let n = (of_char c :: nat) in if 97 \<le> n \<and> n \<le> 122 then char_of (n - 32) else c)"

definition upper :: "string \<Rightarrow> string" where
  "upper s = map upper_char s"

definition startswith :: "string \<Rightarrow> string \<Rightarrow> bool" where
  "startswith s p \<longleftrightarrow> take (length p) s = p"

definition endswith :: "string \<Rightarrow> string \<Rightarrow> bool" where
  "endswith s p \<longleftrightarrow> length p \<le> length s \<and> drop (length s - length p) s = p"

text \<open>\<open>p in s\<close> on strings: \<open>p\<close> occurs in \<open>s\<close> as a contiguous substring.\<close>

definition str_in :: "string \<Rightarrow> string \<Rightarrow> bool" where
  "str_in p s \<longleftrightarrow> list_ex (\<lambda>i. take (length p) (drop i s) = p) [0 ..< Suc (length s)]"

text \<open>
  \<open>s.split()\<close>: the maximal runs of non-whitespace characters, in order.  \<open>cur\<close> is the
  token being read.
\<close>

fun tokens :: "string \<Rightarrow> string \<Rightarrow> string list" where
  "tokens cur [] = (if cur = [] then [] else [cur])"
| "tokens cur (c # cs) =
     (if isspace c then (if cur = [] then tokens [] cs else cur # tokens [] cs)
      else tokens (cur @ [c]) cs)"

definition split_ws :: "string \<Rightarrow> string list" where
  "split_ws s = tokens [] s"

text \<open>
  \<open>s.split(sep)\<close> for a non-empty separator: cut at every occurrence of \<open>sep\<close>, scanning
  from the left without overlap; the result is never empty.
\<close>

function split_at :: "string \<Rightarrow> string \<Rightarrow> string \<Rightarrow> string list" where
  "split_at sep cur [] = [cur]"
| "split_at sep cur (c # cs) =
     (if sep \<noteq> [] \<and> take (length sep) (c # cs) = sep
      then cur # split_at sep [] (drop (length sep) (c # cs))
      else split_at sep (cur @ [c]) cs)"
  by pat_completeness auto
termination
  by (relation "measure (\<lambda>(sep, cur, s). length s)") auto

definition split_sep :: "string \<Rightarrow> string \<Rightarrow> string list" where
  "split_sep s sep = split_at sep [] s"

section \<open>The plate catalog (\<open>models.py\<close>)\<close>

text \<open>
  \<open>Tag = namedtuple('Tag', 'Abbrev Lat Lon omega')\<close>, the record of the GSRM and
  NNR-MORVEL56 tables; a table is a dict from plate name to its \<open>Tag\<close>.
\<close>

record Tag =
  Abbrev :: string
  Lat :: real
  Lon :: real
  omega :: real

type_synonym pmm = "(string, Tag) dict"

section \<open>\<open>read_plate_outline\<close>\<close>

subsection \<open>The abbreviation table (lines 44-46)\<close>

definition plate_abbrev2name :: "pmm \<Rightarrow> (string, string) dict" where
  "plate_abbrev2name pmm_dict =
     fold (\<lambda>(key, val) d. AList.update (upper (Abbrev val)) key d) pmm_dict []"

subsection \<open>The loop over the lines (lines 49-79)\<close>

text \<open>
  The loop state: \<open>key\<close> and \<open>vertices\<close> start as \<open>None\<close>, \<open>outlines\<close> as the empty dict.
  A vertex is the float array of one data line, of whatever length the line has tokens;
  \<open>'f\<close> is the type of floats.
\<close>

record 'f reader =
  key :: "string option"
  vertices :: "'f list list option"
  outlines :: "(string, 'f list list) dict"

definition reader_init :: "'f reader" where
  "reader_init = \<lparr>key = None, vertices = None, outlines = []\<rparr>"

text \<open>Line 56: the line names a new plate.\<close>

definition is_header :: "string \<Rightarrow> bool" where
  "is_header line \<longleftrightarrow>
     startswith line ''> '' \<or> startswith line ''# '' \<or> length (split_ws line) = 1"

text \<open>Lines 62-70: the new abbreviation, with the line change removed.\<close>

definition header_key :: "string \<Rightarrow> error + string" where
  "header_key line =
     (case (if startswith line ''> '' then py_index (split_sep line ''> '') 1
            else if startswith line ''# '' then py_index (split_sep line ''# '') 1
            else Inr line) of
        Inl e \<Rightarrow> Inl e
      | Inr k \<Rightarrow> if endswith k nl then py_index (split_sep k nl) 0 else Inr k)"

text \<open>
  \<open>np.array(vertices)\<close> of a non-empty list of 1-D float arrays: a 2-D array when all
  rows have one length.  Rows of different lengths raise \<open>ValueError\<close> (NumPy 1.24 and
  later; earlier versions warn and build an array of objects); its message is abridged.
\<close>

definition np_array :: "'f list list \<Rightarrow> error + 'f list list" where
  "np_array vs =
     (if \<forall>v \<in> set vs. length v = length (hd vs) then Inr vs
      else Inl (ValueError ''setting an array element with a sequence. The requested array has an inhomogeneous shape''))"

text \<open>Lines 58-60: add the previous plate to the dictionary, when there is one.\<close>

definition commit :: "(string, string) dict \<Rightarrow> 'f reader \<Rightarrow> error + (string, 'f list list) dict" where
  "commit abbrev2name st =
     (case key st of
        None \<Rightarrow> Inr (outlines st)
      | Some k \<Rightarrow>
          (case vertices st of
             None \<Rightarrow> Inr (outlines st)
           | Some vs \<Rightarrow>
               if k \<noteq> [] \<and> vs \<noteq> [] then
                 (case dict_get abbrev2name k of
                    Inl e \<Rightarrow> Inl e
                  | Inr pname \<Rightarrow>
                      (case np_array vs of
                         Inl e \<Rightarrow> Inl e
                       | Inr a \<Rightarrow> Inr (AList.update pname a (outlines st))))
               else Inr (outlines st)))"

text \<open>
  Line 76: \<open>np.array(line.split()).astype(float)\<close>.  The conversion of one token is the
  parameter \<open>tofloat\<close>, \<open>None\<close> where NumPy raises \<open>ValueError\<close>.
\<close>

fun astype_float :: "(string \<Rightarrow> 'f option) \<Rightarrow> string list \<Rightarrow> error + 'f list" where
  "astype_float tofloat [] = Inr []"
| "astype_float tofloat (t # ts) =
     (case tofloat t of
        None \<Rightarrow> Inl (ValueError (''could not convert string to float: '' @ quoted t))
      | Some x \<Rightarrow>
          (case astype_float tofloat ts of
             Inl e \<Rightarrow> Inl e
           | Inr xs \<Rightarrow> Inr (x # xs)))"

text \<open>Lines 76-78: the vertex of a data line, flipped for a \<open>lola\<close> file.\<close>

definition read_vertex :: "(string \<Rightarrow> 'f option) \<Rightarrow> string \<Rightarrow> string \<Rightarrow> error + 'f list" where
  "read_vertex tofloat coord_order line =
     (case astype_float tofloat (split_ws line) of
        Inl e \<Rightarrow> Inl e
      | Inr vert \<Rightarrow> Inr (if coord_order = ''lola'' then rev vert else vert))"

text \<open>Lines 56-79: the body of the loop, for one line.\<close>

definition read_line ::
  "(string \<Rightarrow> 'f option) \<Rightarrow> string \<Rightarrow> (string, string) dict \<Rightarrow> 'f reader \<Rightarrow> string
     \<Rightarrow> error + 'f reader" where
  "read_line tofloat coord_order abbrev2name st line =
     (if is_header line then
        (case commit abbrev2name st of
           Inl e \<Rightarrow> Inl e
         | Inr outl \<Rightarrow>
             (case header_key line of
                Inl e \<Rightarrow> Inl e
              | Inr k \<Rightarrow> Inr \<lparr>key = Some k, vertices = Some [], outlines = outl\<rparr>))
      else
        (case read_vertex tofloat coord_order line of
           Inl e \<Rightarrow> Inl e
         | Inr vert \<Rightarrow>
             (case vertices st of
                None \<Rightarrow>
                  Inl (AttributeError (quoted ''NoneType'' @ '' object has no attribute ''
                         @ quoted ''append''))
              | Some vs \<Rightarrow> Inr (st\<lparr>vertices := Some (vs @ [vert])\<rparr>))))"

fun read_lines ::
  "(string \<Rightarrow> 'f option) \<Rightarrow> string \<Rightarrow> (string, string) dict \<Rightarrow> 'f reader \<Rightarrow> string list
     \<Rightarrow> error + 'f reader" where
  "read_lines tofloat coord_order abbrev2name st [] = Inr st"
| "read_lines tofloat coord_order abbrev2name st (line # lines) =
     (case read_line tofloat coord_order abbrev2name st line of
        Inl e \<Rightarrow> Inl e
      | Inr st' \<Rightarrow> read_lines tofloat coord_order abbrev2name st' lines)"

text \<open>
  Lines 49-79: the dictionary after the loop.  Nothing follows the loop: the pending
  \<open>key\<close> and \<open>vertices\<close> are dropped.
\<close>

definition read_outlines ::
  "(string \<Rightarrow> 'f option) \<Rightarrow> string \<Rightarrow> (string, string) dict \<Rightarrow> string list
     \<Rightarrow> error + (string, 'f list list) dict" where
  "read_outlines tofloat coord_order abbrev2name lines =
     (case read_lines tofloat coord_order abbrev2name reader_init lines of
        Inl e \<Rightarrow> Inl e
      | Inr st \<Rightarrow> Inr (outlines st))"

subsection \<open>The outline of one plate (lines 82-94)\<close>

text \<open>
  A polygon holds the array of vertices it was built from.  Its ring is that array,
  closed by shapely when the first and the last vertex differ.
\<close>

datatype 'f polygon = Polygon (shell: "'f list list")

definition close_ring :: "'f list list \<Rightarrow> 'f list list" where
  "close_ring ring =
     (case ring of
        [] \<Rightarrow> []
      | v # vs \<Rightarrow> if last (v # vs) = v then v # vs else (v # vs) @ [v])"

text \<open>
  \<open>geometry.Polygon(ring)\<close>, shapely's constructor (version 2), on a two-dimensional
  array: an empty array gives the empty polygon; vertices that do not have two or three
  components raise \<open>ValueError\<close>; so does a ring that has fewer than four vertices once
  closed, which is every ring of one or two vertices.  The function returns the dictionary
  or one polygon.
\<close>

definition geometry_Polygon :: "'f list list \<Rightarrow> error + 'f polygon" where
  "geometry_Polygon ring =
     (if ring = [] then Inr (Polygon [])
      else if list_ex (\<lambda>v. length v \<noteq> 2 \<and> length v \<noteq> 3) ring then
        Inl (ValueError ''The ordinate (last) dimension should be 2 or 3'')
      else if length (close_ring ring) < 4 then
        Inl (ValueError ''A linearring requires at least 4 coordinates.'')
      else Inr (Polygon ring))"

datatype 'f outline = Outlines "(string, 'f list list) dict" | Outline "'f polygon"

definition select_outline ::
  "pmm \<Rightarrow> string \<Rightarrow> (string, string) dict \<Rightarrow> (string, 'f list list) dict \<Rightarrow> string option
     \<Rightarrow> error + 'f outline" where
  "select_outline pmm_dict plate_boundary_file abbrev2name outl plate_name =
     (case plate_name of
        None \<Rightarrow> Inr (Outlines outl)
      | Some name \<Rightarrow>
          if name = [] then Inr (Outlines outl)
          else if name \<notin> set (dict_values abbrev2name) then
            (case dict_get pmm_dict name of
               Inl e \<Rightarrow> Inl e
             | Inr tag \<Rightarrow>
                 Inl (ValueError (''Can NOT found plate '' @ name @ '' ('' @ Abbrev tag
                        @ '') in file: '' @ plate_boundary_file @ ''!'')))
          else
            (case dict_get outl name of
               Inl e \<Rightarrow> Inl e
             | Inr ring \<Rightarrow>
                 (case geometry_Polygon ring of
                    Inl e \<Rightarrow> Inl e
                  | Inr polygon_obj \<Rightarrow> Inr (Outline polygon_obj))))"

subsection \<open>The function from the boundary file on (lines 38-94)\<close>

text \<open>Line 39: \<open>os.path.basename(plate_boundary_file).split('.')[-1]\<close>.\<close>

definition coord_order_of :: "string \<Rightarrow> string" where
  "coord_order_of plate_boundary_file =
     last (split_sep (last (split_sep plate_boundary_file ''/'')) ''.'')"

text \<open>
  \<open>lines\<close> is what \<open>f.readlines()\<close> returns for the boundary file, each line with its
  line change.
\<close>

definition read_boundary_file ::
  "(string \<Rightarrow> 'f option) \<Rightarrow> pmm \<Rightarrow> string \<Rightarrow> string list \<Rightarrow> string option
     \<Rightarrow> error + 'f outline" where
  "read_boundary_file tofloat pmm_dict plate_boundary_file lines plate_name =
     (let coord_order = coord_order_of plate_boundary_file in
      if coord_order \<notin> {''lalo'', ''lola''} then
        Inl (ValueError (''Can NOT recognize the lat/lon order from the file extension: .''
               @ coord_order @ ''!''))
      else
        (case read_outlines tofloat coord_order (plate_abbrev2name pmm_dict) lines of
           Inl e \<Rightarrow> Inl e
         | Inr outl \<Rightarrow>
             select_outline pmm_dict plate_boundary_file (plate_abbrev2name pmm_dict) outl
               plate_name))"

subsection \<open>The whole function (lines 14-94)\<close>

text \<open>
  The module's globals and the file system are the environment: the two tables, the
  dict \<open>PLATE_BOUNDARY_FILE\<close> and, for each path that can be opened, its lines.
\<close>

record env =
  GSRM_V21_PMM :: pmm
  NNR_MORVEL56_PMM :: pmm
  PLATE_BOUNDARY_FILE :: "(string, string) dict"
  files :: "(string, string list) dict"

definition py_open :: "env \<Rightarrow> string \<Rightarrow> error + string list" where
  "py_open E path =
     (case map_of (files E) path of
        None \<Rightarrow> Inl (FileNotFoundError path)
      | Some lines \<Rightarrow> Inr lines)"

definition read_plate_outline ::
  "(string \<Rightarrow> 'f option) \<Rightarrow> env \<Rightarrow> string \<Rightarrow> string option \<Rightarrow> error + 'f outline" where
  "read_plate_outline tofloat E pmm_name plate_name =
     (case (if str_in ''GSRM'' pmm_name then Inr (''GSRM'', GSRM_V21_PMM E)
            else if str_in ''MORVEL'' pmm_name then Inr (''MORVEL'', NNR_MORVEL56_PMM E)
            else Inl (ValueError (''Un-recognized plate motion model: '' @ pmm_name @ ''!''
                        @ nl @ ''Available models: GSRM, MORVEL.''))) of
        Inl e \<Rightarrow> Inl e
      | Inr (name, pmm_dict) \<Rightarrow>
          (case dict_get (PLATE_BOUNDARY_FILE E) name of
             Inl e \<Rightarrow> Inl e
           | Inr plate_boundary_file \<Rightarrow>
               if coord_order_of plate_boundary_file \<notin> {''lalo'', ''lola''} then
                 Inl (ValueError (''Can NOT recognize the lat/lon order from the file extension: .''
                        @ coord_order_of plate_boundary_file @ ''!''))
               else
                 (case py_open E plate_boundary_file of
                    Inl e \<Rightarrow> Inl e
                  | Inr lines \<Rightarrow>
                      read_boundary_file tofloat pmm_dict plate_boundary_file lines plate_name)))"

section \<open>\<open>plot_plate_motion\<close>: the sample points (lines 126-153)\<close>

text \<open>
  Coordinates are finite floats, taken as exact reals.  \<open>polygon_obj.exterior.coords\<close>
  is the closed ring of the polygon.
\<close>

definition exterior_coords :: "'f polygon \<Rightarrow> 'f list list" where
  "exterior_coords polygon_obj = close_ring (shell polygon_obj)"

text \<open>
  \<open>np.array(coords)[:, i]\<close>: column \<open>i\<close> of a two-dimensional array; the empty column for
  the ring of the empty polygon.
\<close>

definition column :: "'f list list \<Rightarrow> nat \<Rightarrow> error + 'f list" where
  "column rows i =
     (if \<forall>r \<in> set rows. i < length r then Inr (map (\<lambda>r. r ! i) rows)
      else Inl IndexError)"

definition np_min :: "real list \<Rightarrow> error + real" where
  "np_min xs =
     (case xs of
        [] \<Rightarrow> Inl (ValueError ''zero-size array to reduction operation minimum which has no identity'')
      | y # ys \<Rightarrow> Inr (fold min ys y))"

definition np_max :: "real list \<Rightarrow> error + real" where
  "np_max xs =
     (case xs of
        [] \<Rightarrow> Inl (ValueError ''zero-size array to reduction operation maximum which has no identity'')
      | y # ys \<Rightarrow> Inr (fold max ys y))"

text \<open>
  \<open>np.linspace(start, stop, num)\<close>: \<open>num\<close> evenly spaced samples with both end points;
  the last sample is set to \<open>stop\<close> when there is more than one.  A negative \<open>num\<close>
  raises \<open>ValueError\<close> (message abridged).
\<close>

definition linspace :: "real \<Rightarrow> real \<Rightarrow> int \<Rightarrow> error + real list" where
  "linspace start stop num =
     (if num < 0 then Inl (ValueError ''Number of samples must be non-negative.'')
      else if num \<le> 1 then Inr (map (\<lambda>i. start) [0 ..< nat num])
      else
        (let step = (stop - start) / real_of_int (num - 1);
             y = map (\<lambda>i. real i * step + start) [0 ..< nat num]
         in Inr (butlast y @ [stop])))"

text \<open>
  \<open>np.meshgrid(x, y)\<close> with the default \<open>xy\<close> indexing: two arrays of \<open>len(y)\<close> rows and
  \<open>len(x)\<close> columns, the first repeating \<open>x\<close> in every row, the second holding \<open>y[i]\<close> all
  along row \<open>i\<close>.  \<open>flatten\<close> reads an array row by row.
\<close>

definition meshgrid :: "'a list \<Rightarrow> 'a list \<Rightarrow> 'a list list \<times> 'a list list" where
  "meshgrid x y = (map (\<lambda>b. x) y, map (\<lambda>b. map (\<lambda>a. b) x) y)"

definition flatten :: "'a list list \<Rightarrow> 'a list" where
  "flatten a = concat a"

text \<open>\<open>a[flag]\<close>: the elements of \<open>a\<close> where the boolean array \<open>flag\<close> is true.\<close>

definition mask :: "'a list \<Rightarrow> bool list \<Rightarrow> 'a list" where
  "mask a flag = map fst (filter snd (zip a flag))"

text \<open>Lines 136-143: the candidate points \<open>cand_lats\<close>, \<open>cand_lons\<close>.\<close>

definition candidate_coords :: "real polygon \<Rightarrow> int \<Rightarrow> int \<Rightarrow> error + real list \<times> real list" where
  "candidate_coords polygon_obj ny nx =
     (case column (exterior_coords polygon_obj) 0 of
        Inl e \<Rightarrow> Inl e
      | Inr poly_lats \<Rightarrow>
     (case column (exterior_coords polygon_obj) 1 of
        Inl e \<Rightarrow> Inl e
      | Inr poly_lons \<Rightarrow>
     (case np_min poly_lats of
        Inl e \<Rightarrow> Inl e
      | Inr min_lat \<Rightarrow>
     (case np_max poly_lats of
        Inl e \<Rightarrow> Inl e
      | Inr max_lat \<Rightarrow>
     (case linspace min_lat max_lat ny of
        Inl e \<Rightarrow> Inl e
      | Inr lats \<Rightarrow>
     (case np_min poly_lons of
        Inl e \<Rightarrow> Inl e
      | Inr min_lon \<Rightarrow>
     (case np_max poly_lons of
        Inl e \<Rightarrow> Inl e
      | Inr max_lon \<Rightarrow>
     (case linspace min_lon max_lon nx of
        Inl e \<Rightarrow> Inl e
      | Inr lons \<Rightarrow>
          (let (cand_lats, cand_lons) = meshgrid lats lons
           in Inr (flatten cand_lats, flatten cand_lons))))))))))"

text \<open>
  Lines 126-153.  \<open>contains\<close> is shapely's \<open>polygon_obj.contains(geometry.Point(lat, lon))\<close>,
  a parameter.
\<close>

definition sample_coords_within_polygon ::
  "(real polygon \<Rightarrow> real \<times> real \<Rightarrow> bool) \<Rightarrow> real polygon \<Rightarrow> int \<Rightarrow> int
     \<Rightarrow> error + real list \<times> real list" where
  "sample_coords_within_polygon contains polygon_obj ny nx =
     (case candidate_coords polygon_obj ny nx of
        Inl e \<Rightarrow> Inl e
      | Inr (cand_lats, cand_lons) \<Rightarrow>
          (let flag = map (\<lambda>(cand_lat, cand_lon). contains polygon_obj (cand_lat, cand_lon))
                        (zip cand_lats cand_lons)
           in Inr (mask cand_lats flag, mask cand_lons flag)))"

section \<open>\<open>plot_plate_motion\<close>: the velocity vectors (lines 211-220)\<close>

text \<open>
  A NumPy float is a finite number, an infinity or NaN; the sign of zero is left out.
  The special values follow IEEE 754, as NumPy computes them (with a warning, without an
  exception).  A finite result is rounded: \<open>rnd x\<close> is the float that the machine gives
  for the exact result \<open>x\<close>, an infinity when it overflows.  \<open>rnd\<close> is a parameter, so
  that what is proved holds for every rounding; a result that is exactly zero is zero.
\<close>

datatype float64 = Num real | PInf | NInf | NaN

definition round_to :: "(real \<Rightarrow> float64) \<Rightarrow> real \<Rightarrow> float64" where
  "round_to rnd x = (if x = 0 then Num 0 else rnd x)"

fun np_add :: "(real \<Rightarrow> float64) \<Rightarrow> float64 \<Rightarrow> float64 \<Rightarrow> float64" where
  "np_add rnd (Num x) (Num y) = round_to rnd (x + y)"
| "np_add rnd NaN b = NaN"
| "np_add rnd a NaN = NaN"
| "np_add rnd PInf NInf = NaN"
| "np_add rnd NInf PInf = NaN"
| "np_add rnd PInf b = PInf"
| "np_add rnd NInf b = NInf"
| "np_add rnd (Num x) b = b"

fun np_multiply :: "(real \<Rightarrow> float64) \<Rightarrow> float64 \<Rightarrow> float64 \<Rightarrow> float64" where
  "np_multiply rnd (Num x) (Num y) = round_to rnd (x * y)"
| "np_multiply rnd NaN b = NaN"
| "np_multiply rnd a NaN = NaN"
| "np_multiply rnd PInf (Num y) = (if y = 0 then NaN else if 0 < y then PInf else NInf)"
| "np_multiply rnd NInf (Num y) = (if y = 0 then NaN else if 0 < y then NInf else PInf)"
| "np_multiply rnd (Num x) PInf = (if x = 0 then NaN else if 0 < x then PInf else NInf)"
| "np_multiply rnd (Num x) NInf = (if x = 0 then NaN else if 0 < x then NInf else PInf)"
| "np_multiply rnd PInf PInf = PInf"
| "np_multiply rnd NInf NInf = PInf"
| "np_multiply rnd PInf NInf = NInf"
| "np_multiply rnd NInf PInf = NInf"

fun np_divide :: "(real \<Rightarrow> float64) \<Rightarrow> float64 \<Rightarrow> float64 \<Rightarrow> float64" where
  "np_divide rnd (Num x) (Num y) =
     (if y \<noteq> 0 then round_to rnd (x / y)
      else if x = 0 then NaN else if 0 < x then PInf else NInf)"
| "np_divide rnd NaN b = NaN"
| "np_divide rnd a NaN = NaN"
| "np_divide rnd (Num x) b = Num 0"
| "np_divide rnd PInf (Num y) = (if 0 \<le> y then PInf else NInf)"
| "np_divide rnd NInf (Num y) = (if 0 \<le> y then NInf else PInf)"
| "np_divide rnd PInf PInf = NaN"
| "np_divide rnd PInf NInf = NaN"
| "np_divide rnd NInf PInf = NaN"
| "np_divide rnd NInf NInf = NaN"

fun np_sqrt :: "(real \<Rightarrow> float64) \<Rightarrow> float64 \<Rightarrow> float64" where
  "np_sqrt rnd (Num x) = (if x < 0 then NaN else round_to rnd (sqrt x))"
| "np_sqrt rnd PInf = PInf"
| "np_sqrt rnd a = NaN"

text \<open>\<open>x**2\<close>.\<close>

definition np_square :: "(real \<Rightarrow> float64) \<Rightarrow> float64 \<Rightarrow> float64" where
  "np_square rnd x = np_multiply rnd x x"

text \<open>
  Lines 214-220 at one index of the arrays.  \<open>cos_deg2rad\<close> is
  \<open>np.cos(np.deg2rad(sample_lat))\<close> as the machine computes it, a parameter.
\<close>

definition renormalize ::
  "(real \<Rightarrow> float64) \<Rightarrow> (float64 \<Rightarrow> float64) \<Rightarrow> float64 \<Rightarrow> float64 \<Rightarrow> float64
     \<Rightarrow> float64 \<times> float64" where
  "renormalize rnd cos_deg2rad sample_lat ve vn =
     (let norm = np_sqrt rnd (np_add rnd (np_square rnd ve) (np_square rnd vn));
          ve1 = np_divide rnd ve (cos_deg2rad sample_lat);
          renorm = np_divide rnd (np_sqrt rnd (np_add rnd (np_square rnd ve1) (np_square rnd vn))) norm
      in (np_divide rnd ve1 renorm, np_divide rnd vn renorm))"

text \<open>
  Lines 214-220 on the arrays \<open>sample_lats\<close>, \<open>ve\<close>, \<open>vn\<close>, which have one length in
  \<open>plot_plate_motion\<close>: the velocities are computed at the sample points.
\<close>

definition correct_velocity ::
  "(real \<Rightarrow> float64) \<Rightarrow> (float64 \<Rightarrow> float64) \<Rightarrow> float64 list \<Rightarrow> float64 list \<Rightarrow> float64 list
     \<Rightarrow> float64 list \<times> float64 list" where
  "correct_velocity rnd cos_deg2rad sample_lats ve vn =
     (let out = map (\<lambda>(lat, e, n). renormalize rnd cos_deg2rad lat e n)
                  (zip sample_lats (zip ve vn))
      in (map fst out, map snd out))"

text \<open>Lines 211-220: from m/yr to mm/yr, then the correction.\<close>

definition velocity_mm_per_year ::
  "(real \<Rightarrow> float64) \<Rightarrow> (float64 \<Rightarrow> float64) \<Rightarrow> float64 list \<Rightarrow> float64 list \<Rightarrow> float64 list
     \<Rightarrow> float64 list \<times> float64 list" where
  "velocity_mm_per_year rnd cos_deg2rad sample_lats ve vn =
     correct_velocity rnd cos_deg2rad sample_lats
       (map (\<lambda>v. np_multiply rnd v (Num 1000)) ve) (map (\<lambda>v. np_multiply rnd v (Num 1000)) vn)"

subsection \<open>Rounding\<close>

text \<open>
  What the theorems below ask of the rounding: an exact result whose magnitude is
  between \<open>2^-1022\<close> and \<open>2^1023\<close> is rounded to a finite number, off by at most half its
  magnitude.  Binary64 rounding to nearest does so, with a relative error of at most
  \<open>2^-53\<close>; nothing is asked outside that range, where binary64 overflows or loses
  precision.
\<close>

definition rounds_within_half :: "(real \<Rightarrow> float64) \<Rightarrow> bool" where
  "rounds_within_half rnd \<longleftrightarrow>
     (\<forall>x. 1 / 2 ^ 1022 \<le> \<bar>x\<bar> \<and> \<bar>x\<bar> \<le> 2 ^ 1023 \<longrightarrow> (\<exists>y. rnd x = Num y \<and> \<bar>y - x\<bar> \<le> \<bar>x\<bar> / 2))"

text \<open>
  The finite numbers of magnitude between \<open>2^-k\<close> and \<open>2^k\<close>, and the positive ones among
  them.
\<close>

definition in_window :: "nat \<Rightarrow> float64 \<Rightarrow> bool" where
  "in_window k v \<longleftrightarrow> (\<exists>y. v = Num y \<and> 1 / 2 ^ k \<le> \<bar>y\<bar> \<and> \<bar>y\<bar> \<le> 2 ^ k)"

definition pos_window :: "nat \<Rightarrow> float64 \<Rightarrow> bool" where
  "pos_window k v \<longleftrightarrow> (\<exists>y. v = Num y \<and> 1 / 2 ^ k \<le> y \<and> y \<le> 2 ^ k)"

text \<open>
  The same with a bound \<open>u\<close> on the relative error of one rounding; binary64 rounding to
  nearest has \<open>u = 2^-53\<close>.
\<close>

definition rounds_within :: "real \<Rightarrow> (real \<Rightarrow> float64) \<Rightarrow> bool" where
  "rounds_within u rnd \<longleftrightarrow>
     (\<forall>x. 1 / 2 ^ 1022 \<le> \<bar>x\<bar> \<and> \<bar>x\<bar> \<le> 2 ^ 1023 \<longrightarrow> (\<exists>y. rnd x = Num y \<and> \<bar>y - x\<bar> \<le> u * \<bar>x\<bar>))"

text \<open>The reals that are zero or of magnitude between \<open>2^-k\<close> and \<open>2^k\<close>.\<close>

definition zero_or_window :: "nat \<Rightarrow> real \<Rightarrow> bool" where
  "zero_or_window k x \<longleftrightarrow> x = 0 \<or> (1 / 2 ^ k \<le> \<bar>x\<bar> \<and> \<bar>x\<bar> \<le> 2 ^ k)"

text \<open>
  Two magnitudes that agree within the factor \<open>\<rho>^k\<close>: what \<open>k\<close> roundings, each within
  the factor \<open>\<rho>\<close>, can do to an exact result.
\<close>

definition close :: "real \<Rightarrow> nat \<Rightarrow> real \<Rightarrow> real \<Rightarrow> bool" where
  "close \<rho> k a b \<longleftrightarrow> 0 \<le> a \<and> 0 \<le> b \<and> a \<le> b * \<rho> ^ k \<and> b \<le> a * \<rho> ^ k"

section \<open>Inputs of the examples\<close>

text \<open>
  The conversion of the tokens that the examples use, each to the number it denotes,
  and the catalog of the end-to-end scenario: one plate, Arabia, abbreviated \<open>AR\<close>.
\<close>

definition tofloat_ex :: "string \<Rightarrow> rat option" where
  "tofloat_ex =
     map_of [(''1.0'', 1), (''2.0'', 2), (''3.0'', 3), (''10.0'', 10), (''11.0'', 11),
             (''12.0'', 12), (''40.0'', 40), (''41.0'', 41), (''42.0'', 42)]"

definition catalog_ex :: pmm where
  "catalog_ex = [(''Arabia'', \<lparr>Abbrev = ''AR'', Lat = 51.12, Lon = -19.87, omega = 0.484\<rparr>)]"

text \<open>
  A machine for the examples: no rounding error on the results that binary64 can hold,
  with binary64's overflow to infinity and underflow to zero; and a cosine in degrees
  that has at 90 and -90 degrees the value that NumPy gives there,
  \<open>6.123233995736766e-17\<close>.
\<close>

definition rnd_ex :: "real \<Rightarrow> float64" where
  "rnd_ex x =
     (if 2 ^ 1024 \<le> \<bar>x\<bar> then (if 0 < x then PInf else NInf)
      else if \<bar>x\<bar> < 1 / 2 ^ 1075 then Num 0
      else Num x)"

fun cos_deg2rad_ex :: "float64 \<Rightarrow> float64" where
  "cos_deg2rad_ex (Num x) =
     Num (if x = 90 \<or> x = - 90 then 6123233995736766 / 10 ^ 32 else cos (x * pi / 180))"
| "cos_deg2rad_ex a = NaN"

section \<open>Strings and dictionaries: basic facts\<close>

lemma upper_char_idem: "upper_char (upper_char c) = upper_char c"
proof (cases "97 \<le> (of_char c :: nat) \<and> (of_char c :: nat) \<le> 122")
  case True
  then have "(of_char c :: nat) - 32 < 256" by arith
  then have "((of_char c :: nat) - 32) mod 256 = of_char c - 32" by (rule mod_less)
  then have eq: "(of_char (char_of (of_char c - 32 :: nat)) :: nat) = of_char c - 32"
    by simp
  from True have low: "\<not> 97 \<le> (of_char c :: nat) - 32" by arith
  have up: "upper_char c = char_of ((of_char c :: nat) - 32)"
    using True by (simp add: upper_char_def Let_def)
  show ?thesis
    unfolding up unfolding upper_char_def Let_def eq using low by simp
next
  case False
  then have "upper_char c = c" by (auto simp add: upper_char_def Let_def)
  then show ?thesis by simp
qed

lemma upper_idem: "upper (upper s) = upper s"
  by (simp add: upper_def upper_char_idem)

lemma tokens_spaces:
  "\<forall>c \<in> set w. isspace c \<Longrightarrow> tokens cur w = (if cur = [] then [] else [cur])"
  by (induction w arbitrary: cur) auto

lemma tokens_trailing:
  "\<forall>c \<in> set w. isspace c \<Longrightarrow> tokens cur (s @ w) = tokens cur s"
  by (induction s arbitrary: cur) (simp_all add: tokens_spaces)

lemma keys_fold_update:
  "fst ` set (fold (\<lambda>(key, val) d. AList.update (g val) key d) xs acc)
     = fst ` set acc \<union> (\<lambda>(key, val). g val) ` set xs"
proof (induction xs arbitrary: acc)
  case Nil
  show ?case by simp
next
  case (Cons x xs)
  obtain n t where x: "x = (n, t)" by (cases x)
  show ?case by (simp add: x Cons.IH dom_update)
qed

lemma plate_abbrev2name_keys:
  "set (dict_keys (plate_abbrev2name pmm_dict))
     = (\<lambda>(key, val). upper (Abbrev val)) ` set pmm_dict"
  by (simp add: plate_abbrev2name_def dict_keys_def keys_fold_update)




section \<open>The loop over the lines\<close>

lemma read_lines_append:
  "read_lines f co tbl st (xs @ ys) =
     (case read_lines f co tbl st xs of
        Inl e \<Rightarrow> Inl e
      | Inr st' \<Rightarrow> read_lines f co tbl st' ys)"
  by (induction xs arbitrary: st) (auto split: sum.splits)

text \<open>
  C1.  The last record of a file is not committed.  On the end-to-end scenario (catalog
  Arabia/\<open>AR\<close>, header \<open>> AR\<close>, three coordinate lines, end of input) the function
  returns the empty dictionary, and asked for Arabia it raises \<open>KeyError\<close>; the same
  record followed by one more header line is committed.
\<close>

theorem last_record_not_committed:
  "read_boundary_file tofloat_ex catalog_ex ''plate_outlines.lalo''
     [''> AR'' @ nl, ''10.0 40.0'' @ nl, ''12.0 42.0'' @ nl, ''11.0 41.0'' @ nl] None
     = Inr (Outlines [])
   \<and> read_boundary_file tofloat_ex catalog_ex ''plate_outlines.lalo''
     [''> AR'' @ nl, ''10.0 40.0'' @ nl, ''12.0 42.0'' @ nl, ''11.0 41.0'' @ nl] (Some ''Arabia'')
     = Inl (KeyError ''Arabia'')
   \<and> read_boundary_file tofloat_ex catalog_ex ''plate_outlines.lalo''
     [''> AR'' @ nl, ''10.0 40.0'' @ nl, ''12.0 42.0'' @ nl, ''11.0 41.0'' @ nl, ''> AR'' @ nl] None
     = Inr (Outlines [(''Arabia'', [[10, 40], [12, 42], [11, 41]])])"
  by code_simp

section \<open>Coordinate order\<close>

lemma astype_float_ok:
  "(\<forall>t \<in> set ts. f t \<noteq> None) \<Longrightarrow> astype_float f ts = Inr (map (\<lambda>t. the (f t)) ts)"
  by (induction ts) (auto split: option.splits)


lemma astype_float_Inr_iff:
  "astype_float f ts = Inr xs \<longleftrightarrow> map f ts = map Some xs"
proof (induction ts arbitrary: xs)
  case Nil
  show ?case by auto
next
  case (Cons t ts)
  show ?case
  proof (cases "f t")
    case None
    then show ?thesis by (cases xs) auto
  next
    case (Some x)
    show ?thesis
    proof (cases "astype_float f ts")
      case (Inl e)
      then have "\<And>ys. map f ts \<noteq> map Some ys" using Cons.IH by simp
      with Some Inl show ?thesis by (cases xs) auto
    next
      case (Inr ys)
      then have "map f ts = map Some ys" using Cons.IH by simp
      with Some Inr show ?thesis by (cases xs) auto
    qed
  qed
qed

lemma astype_float_rev:
  "astype_float f (rev ts) = Inr xs \<longleftrightarrow> astype_float f ts = Inr (rev xs)"
  by (metis astype_float_Inr_iff rev_map rev_rev_ident)

lemma read_vertex_swapped:
  assumes "split_ws l' = rev (split_ws l)"
  shows "read_vertex f ''lola'' l' = Inr v \<longleftrightarrow> read_vertex f ''lalo'' l = Inr v"
proof -
  have "read_vertex f ''lola'' l' = Inr v \<longleftrightarrow> astype_float f (rev (split_ws l)) = Inr (rev v)"
    using assms by (auto simp: read_vertex_def split: sum.splits)
  also have "\<dots> \<longleftrightarrow> astype_float f (split_ws l) = Inr v"
    by (simp add: astype_float_rev)
  also have "\<dots> \<longleftrightarrow> read_vertex f ''lalo'' l = Inr v"
    by (auto simp: read_vertex_def split: sum.splits)
  finally show ?thesis .
qed

lemma read_line_header:
  "is_header l \<Longrightarrow> read_line f co tbl st l = read_line f co' tbl st l"
  by (simp add: read_line_def)

lemma read_line_swapped:
  assumes "if is_header l then l' = l else \<not> is_header l' \<and> split_ws l' = rev (split_ws l)"
  shows "read_line f ''lola'' tbl st l' = Inr st' \<longleftrightarrow> read_line f ''lalo'' tbl st l = Inr st'"
proof (cases "is_header l")
  case True
  with assms show ?thesis by (simp add: read_line_header[of l f "''lola''" tbl st "''lalo''"])
next
  case False
  with assms have h: "\<not> is_header l'" and s: "split_ws l' = rev (split_ws l)" by auto
  show ?thesis
  proof (cases "read_vertex f ''lalo'' l")
    case (Inl e)
    then have "\<And>v. read_vertex f ''lola'' l' \<noteq> Inr v"
      using read_vertex_swapped[OF s, of f] by simp
    then obtain e' where "read_vertex f ''lola'' l' = Inl e'"
      by (cases "read_vertex f ''lola'' l'") auto
    with Inl False h show ?thesis by (simp add: read_line_def)
  next
    case (Inr v)
    then have "read_vertex f ''lola'' l' = Inr v"
      using read_vertex_swapped[OF s, of f] by simp
    with Inr False h show ?thesis by (simp add: read_line_def)
  qed
qed

lemma read_lines_swapped:
  assumes "list_all2 (\<lambda>l l'. if is_header l then l' = l
                               else \<not> is_header l' \<and> split_ws l' = rev (split_ws l)) lines lines'"
  shows "read_lines f ''lola'' tbl st lines' = Inr st' \<longleftrightarrow> read_lines f ''lalo'' tbl st lines = Inr st'"
  using assms
proof (induction lines lines' arbitrary: st rule: list_all2_induct)
  case Nil
  show ?case by simp
next
  case (Cons l ls l' ls')
  have step: "\<And>s. read_line f ''lola'' tbl st l' = Inr s \<longleftrightarrow> read_line f ''lalo'' tbl st l = Inr s"
    using Cons.hyps(1) by (rule read_line_swapped)
  show ?case
  proof (cases "read_line f ''lalo'' tbl st l")
    case (Inl e)
    then have "\<And>s. read_line f ''lola'' tbl st l' \<noteq> Inr s" using step by simp
    then obtain e' where "read_line f ''lola'' tbl st l' = Inl e'"
      by (cases "read_line f ''lola'' tbl st l'") auto
    with Inl show ?thesis by simp
  next
    case (Inr s)
    then have "read_line f ''lola'' tbl st l' = Inr s" using step by simp
    with Inr Cons.IH[of s] show ?thesis by simp
  qed
qed

text \<open>
  C2.  A file read under \<open>lalo\<close> and the file with the tokens of every coordinate line
  in the opposite order (the two tokens of a pair swapped), read under \<open>lola\<close>, give the
  same dictionary, and one fails when the other does.  A \<open>lalo\<close> line "lat lon" and a
  \<open>lola\<close> line "lon lat" are both stored as (latitude, longitude).
\<close>

theorem lalo_lola_same_outlines:
  assumes "list_all2 (\<lambda>l l'. if is_header l then l' = l
                               else \<not> is_header l' \<and> split_ws l' = rev (split_ws l)) lines lines'"
  shows "(read_outlines tofloat ''lalo'' tbl lines = Inr outl
            \<longleftrightarrow> read_outlines tofloat ''lola'' tbl lines' = Inr outl)
       \<and> (split_ws la = [tlat, tlon] \<and> tofloat tlat = Some lat \<and> tofloat tlon = Some lon
            \<longrightarrow> read_vertex tofloat ''lalo'' la = Inr [lat, lon])
       \<and> (split_ws lo = [tlon, tlat] \<and> tofloat tlat = Some lat \<and> tofloat tlon = Some lon
            \<longrightarrow> read_vertex tofloat ''lola'' lo = Inr [lat, lon])"
proof (intro conjI)
  have eq: "\<And>s. read_lines tofloat ''lola'' tbl reader_init lines' = Inr s
            \<longleftrightarrow> read_lines tofloat ''lalo'' tbl reader_init lines = Inr s"
    using assms by (rule read_lines_swapped)
  show "read_outlines tofloat ''lalo'' tbl lines = Inr outl
            \<longleftrightarrow> read_outlines tofloat ''lola'' tbl lines' = Inr outl"
  proof (cases "read_lines tofloat ''lalo'' tbl reader_init lines")
    case (Inl e)
    then have "\<And>s. read_lines tofloat ''lola'' tbl reader_init lines' \<noteq> Inr s"
      using eq by simp
    then obtain e' where "read_lines tofloat ''lola'' tbl reader_init lines' = Inl e'"
      by (cases "read_lines tofloat ''lola'' tbl reader_init lines'") auto
    with Inl show ?thesis by (simp add: read_outlines_def)
  next
    case (Inr s)
    then have "read_lines tofloat ''lola'' tbl reader_init lines' = Inr s" using eq by simp
    with Inr show ?thesis by (simp add: read_outlines_def)
  qed
next
  show "split_ws la = [tlat, tlon] \<and> tofloat tlat = Some lat \<and> tofloat tlon = Some lon
            \<longrightarrow> read_vertex tofloat ''lalo'' la = Inr [lat, lon]"
    by (simp add: read_vertex_def)
next
  show "split_ws lo = [tlon, tlat] \<and> tofloat tlat = Some lat \<and> tofloat tlon = Some lon
            \<longrightarrow> read_vertex tofloat ''lola'' lo = Inr [lat, lon]"
    by (simp add: read_vertex_def)
qed


theorem lalo_lola_same_outlines_witness:
  "list_all2 (\<lambda>l l'. if is_header l then l' = l
                       else \<not> is_header l' \<and> split_ws l' = rev (split_ws l))
     [''> AR'' @ nl, ''10.0 40.0'' @ nl, ''12.0 42.0'' @ nl, ''> AR'' @ nl]
     [''> AR'' @ nl, ''40.0 10.0'' @ nl, ''42.0 12.0'' @ nl, ''> AR'' @ nl]
   \<and> read_outlines tofloat_ex ''lalo'' (plate_abbrev2name catalog_ex)
       [''> AR'' @ nl, ''10.0 40.0'' @ nl, ''12.0 42.0'' @ nl, ''> AR'' @ nl]
       = Inr [(''Arabia'', [[10, 40], [12, 42]])]
   \<and> read_outlines tofloat_ex ''lola'' (plate_abbrev2name catalog_ex)
       [''> AR'' @ nl, ''40.0 10.0'' @ nl, ''42.0 12.0'' @ nl, ''> AR'' @ nl]
       = Inr [(''Arabia'', [[10, 40], [12, 42]])]
   \<and> split_ws (''10.0 40.0'' @ nl) = [''10.0'', ''40.0'']
   \<and> split_ws (''40.0 10.0'' @ nl) = [''40.0'', ''10.0'']
   \<and> tofloat_ex ''10.0'' = Some 10 \<and> tofloat_ex ''40.0'' = Some 40
   \<and> read_vertex tofloat_ex ''lalo'' (''10.0 40.0'' @ nl) = Inr [10, 40]
   \<and> read_vertex tofloat_ex ''lola'' (''40.0 10.0'' @ nl) = Inr [10, 40]"
proof -
  have h: "list_all2 (\<lambda>l l'. if is_header l then l' = l
                       else \<not> is_header l' \<and> split_ws l' = rev (split_ws l))
     [''> AR'' @ nl, ''10.0 40.0'' @ nl, ''12.0 42.0'' @ nl, ''> AR'' @ nl]
     [''> AR'' @ nl, ''40.0 10.0'' @ nl, ''42.0 12.0'' @ nl, ''> AR'' @ nl]"
    by code_simp
  have r: "read_outlines tofloat_ex ''lalo'' (plate_abbrev2name catalog_ex)
       [''> AR'' @ nl, ''10.0 40.0'' @ nl, ''12.0 42.0'' @ nl, ''> AR'' @ nl]
       = Inr [(''Arabia'', [[10, 40], [12, 42]])]"
    by code_simp
  have t: "split_ws (''10.0 40.0'' @ nl) = [''10.0'', ''40.0'']"
    "split_ws (''40.0 10.0'' @ nl) = [''40.0'', ''10.0'']"
    "tofloat_ex ''10.0'' = Some 10" "tofloat_ex ''40.0'' = Some 40"
    by code_simp+
  from lalo_lola_same_outlines[OF h, of tofloat_ex "plate_abbrev2name catalog_ex"
      "[(''Arabia'', [[10, 40], [12, 42]])]" "''10.0 40.0'' @ nl" "''10.0''" "''40.0''" 10 40
      "''40.0 10.0'' @ nl"] h r t
  show ?thesis by simp
qed

section \<open>Data lines\<close>

lemma read_line_data:
  assumes "\<not> is_header line" and "vertices st = Some vs"
    and "map tofloat (split_ws line) = map Some xs"
  shows "read_line tofloat coord_order tbl st line
           = Inr (st\<lparr>vertices := Some (vs @ [if coord_order = ''lola'' then rev xs else xs])\<rparr>)"
proof -
  have "astype_float tofloat (split_ws line) = Inr xs"
    using assms(3) by (simp add: astype_float_Inr_iff)
  with assms(1,2) show ?thesis by (simp add: read_line_def read_vertex_def)
qed



lemma isspace_nl: "\<forall>c \<in> set nl. isspace c"
  by (simp add: nl_def isspace_def)

lemma split_ws_pad:
  assumes "\<forall>c \<in> set t. isspace c"
  shows "split_ws (body @ t) = split_ws body"
  using assms by (simp add: split_ws_def tokens_trailing)

lemma not_startswith_pad:
  assumes t: "\<forall>c \<in> set t. isspace c" and t': "\<forall>c \<in> set t'. isspace c"
    and nh: "\<not> is_header (body @ t)" and p: "p = [c, CHR '' '']" and c: "\<not> isspace c"
    and np: "\<not> startswith (body @ t) p"
  shows "\<not> startswith (body @ t') p"
proof
  assume s: "startswith (body @ t') p"
  show False
  proof (cases body)
    case Nil
    with s p have "c \<in> set t'" by (cases t') (auto simp: startswith_def)
    with t' c show False by blast
  next
    case (Cons b bs)
    show False
    proof (cases bs)
      case Nil
      with Cons s p have "b = c" by (auto simp: startswith_def)
      then have "split_ws (body @ t) = [[c]]"
        using Cons Nil t c by (simp add: split_ws_def tokens_spaces)
      with nh show False by (simp add: is_header_def)
    next
      case (Cons b2 bs2)
      with \<open>body = b # bs\<close> s p have "startswith (body @ t) p"
        by (simp add: startswith_def)
      with np show False by blast
    qed
  qed
qed

lemma not_header_pad:
  assumes t: "\<forall>c \<in> set t. isspace c" and t': "\<forall>c \<in> set t'. isspace c"
    and nh: "\<not> is_header (body @ t)"
  shows "\<not> is_header (body @ t')"
proof -
  have a: "\<not> startswith (body @ t') ''> ''"
    using not_startswith_pad[OF t t' nh, of "''> ''" "CHR ''>''"] nh
    by (simp add: is_header_def isspace_def)
  have b: "\<not> startswith (body @ t') ''# ''"
    using not_startswith_pad[OF t t' nh, of "''# ''" "CHR ''#''"] nh
    by (simp add: is_header_def isspace_def)
  have "split_ws (body @ t') = split_ws (body @ t)"
    using t t' by (simp add: split_ws_pad)
  with a b nh show ?thesis by (simp add: is_header_def)
qed

lemma read_line_pad:
  assumes t: "\<forall>c \<in> set t. isspace c" and t': "\<forall>c \<in> set t'. isspace c"
    and nh: "\<not> is_header (body @ t)"
  shows "read_line f co tbl st (body @ t') = read_line f co tbl st (body @ t)"
proof -
  have "split_ws (body @ t') = split_ws (body @ t)"
    using t t' by (simp add: split_ws_pad)
  with nh not_header_pad[OF t t' nh] show ?thesis
    by (simp add: read_line_def read_vertex_def)
qed

lemma read_line_trailing:
  assumes "l' = l \<or> (\<not> is_header l \<and> (\<exists>body w e. (\<forall>c \<in> set w. isspace c) \<and> (e = [] \<or> e = nl)
                      \<and> l = body @ e \<and> l' = body @ w @ e))"
  shows "read_line f co tbl st l' = read_line f co tbl st l"
proof (cases "l' = l")
  case True
  then show ?thesis by simp
next
  case False
  with assms obtain body w e where nh: "\<not> is_header l" and w: "\<forall>c \<in> set w. isspace c"
    and e: "e = [] \<or> e = nl" and l: "l = body @ e" and l': "l' = body @ w @ e"
    by blast
  from e have se: "\<forall>c \<in> set e. isspace c" using isspace_nl by auto
  with w have swe: "\<forall>c \<in> set (w @ e). isspace c" by auto
  show ?thesis
    unfolding l l' using read_line_pad[OF se swe] nh l by simp
qed

lemma read_lines_trailing:
  assumes "list_all2 (\<lambda>l l'. l' = l \<or> (\<not> is_header l \<and> (\<exists>body w e. (\<forall>c \<in> set w. isspace c)
                      \<and> (e = [] \<or> e = nl) \<and> l = body @ e \<and> l' = body @ w @ e))) lines lines'"
  shows "read_lines f co tbl st lines' = read_lines f co tbl st lines"
  using assms
proof (induction lines lines' arbitrary: st rule: list_all2_induct)
  case Nil
  show ?case by simp
next
  case (Cons l ls l' ls')
  have "read_line f co tbl st l' = read_line f co tbl st l"
    using Cons.hyps(1) by (rule read_line_trailing)
  with Cons.IH show ?case by (simp split: sum.splits)
qed

lemma blank_line:
  assumes "\<forall>c \<in> set blank. isspace c"
  shows "\<not> is_header blank" and "split_ws blank = []"
proof -
  show s: "split_ws blank = []" using assms by (simp add: split_ws_def tokens_spaces)
  have "\<not> startswith blank ''> ''"
    using assms by (cases blank) (auto simp: startswith_def isspace_def)
  moreover have "\<not> startswith blank ''# ''"
    using assms by (cases blank) (auto simp: startswith_def isspace_def)
  ultimately show "\<not> is_header blank" using s by (simp add: is_header_def)
qed

lemma astype_float_error:
  "astype_float f ts = Inl e \<Longrightarrow> \<exists>msg. e = ValueError msg"
  by (induction ts) (auto split: option.splits sum.splits)

lemma leading_noise_fails:
  assumes "\<not> is_header noise"
  shows "(\<exists>msg. read_outlines f co tbl (noise # rest) = Inl (ValueError msg))
       \<or> (\<exists>msg. read_outlines f co tbl (noise # rest) = Inl (AttributeError msg))"
  using assms
  by (cases "astype_float f (split_ws noise)")
     (auto simp: read_outlines_def read_line_def read_vertex_def reader_init_def
           dest: astype_float_error)




text \<open>
  C5 (as the code has it).  Whitespace added at the end of coordinate lines, before the
  line change, does not change the result.  Other lines are not skipped: a first line
  that is not a header makes the function fail, and a blank line after a header is
  appended to the vertices as an empty vertex.
\<close>

theorem trailing_whitespace_tolerated:
  assumes "list_all2 (\<lambda>l l'. l' = l \<or> (\<not> is_header l \<and> (\<exists>body w e. (\<forall>c \<in> set w. isspace c)
                      \<and> (e = [] \<or> e = nl) \<and> l = body @ e \<and> l' = body @ w @ e))) lines lines'"
    and "\<not> is_header noise"
    and "\<forall>c \<in> set blank. isspace c" and "vertices st = Some vs"
  shows "read_outlines tofloat coord_order tbl lines' = read_outlines tofloat coord_order tbl lines
       \<and> ((\<exists>msg. read_outlines tofloat coord_order tbl (noise # rest) = Inl (ValueError msg))
          \<or> (\<exists>msg. read_outlines tofloat coord_order tbl (noise # rest) = Inl (AttributeError msg)))
       \<and> read_line tofloat coord_order tbl st blank = Inr (st\<lparr>vertices := Some (vs @ [[]])\<rparr>)"
proof (intro conjI)
  show "read_outlines tofloat coord_order tbl lines' = read_outlines tofloat coord_order tbl lines"
    using read_lines_trailing[OF assms(1), of tofloat coord_order tbl reader_init]
    by (simp add: read_outlines_def)
  show "(\<exists>msg. read_outlines tofloat coord_order tbl (noise # rest) = Inl (ValueError msg))
          \<or> (\<exists>msg. read_outlines tofloat coord_order tbl (noise # rest) = Inl (AttributeError msg))"
    using assms(2) by (rule leading_noise_fails)
  show "read_line tofloat coord_order tbl st blank = Inr (st\<lparr>vertices := Some (vs @ [[]])\<rparr>)"
    using read_line_data[of blank st vs tofloat "[]" coord_order tbl] blank_line[OF assms(3)] assms(4)
    by simp
qed

theorem trailing_whitespace_tolerated_witness:
  "list_all2 (\<lambda>l l'. l' = l \<or> (\<not> is_header l \<and> (\<exists>body w e. (\<forall>c \<in> set w. isspace c)
                      \<and> (e = [] \<or> e = nl) \<and> l = body @ e \<and> l' = body @ w @ e)))
     [''> AR'' @ nl, ''10.0 40.0'' @ nl, ''> AR'' @ nl]
     [''> AR'' @ nl, ''10.0 40.0  '' @ nl, ''> AR'' @ nl]
   \<and> \<not> is_header (''plate boundary file'' @ nl)
   \<and> list_all isspace nl
   \<and> vertices \<lparr>key = Some ''AR'', vertices = Some [[10, 40]], outlines = []\<rparr> = Some [[10, 40]]
   \<and> read_outlines tofloat_ex ''lalo'' (plate_abbrev2name catalog_ex)
        [''> AR'' @ nl, ''10.0 40.0  '' @ nl, ''> AR'' @ nl]
       = Inr [(''Arabia'', [[10, 40]])]
   \<and> read_outlines tofloat_ex ''lalo'' (plate_abbrev2name catalog_ex)
        [''> AR'' @ nl, ''10.0 40.0'' @ nl, ''> AR'' @ nl]
       = Inr [(''Arabia'', [[10, 40]])]
   \<and> (\<exists>msg. read_outlines tofloat_ex ''lalo'' (plate_abbrev2name catalog_ex)
        [''plate boundary file'' @ nl, ''> AR'' @ nl, ''10.0 40.0'' @ nl, ''> AR'' @ nl]
       = Inl (ValueError msg))
   \<and> read_line tofloat_ex ''lalo'' (plate_abbrev2name catalog_ex)
        \<lparr>key = Some ''AR'', vertices = Some [[10, 40]], outlines = []\<rparr> nl
       = Inr \<lparr>key = Some ''AR'', vertices = Some [[10, 40], []], outlines = []\<rparr>"
proof -
  have nh: "\<not> is_header (''10.0 40.0'' @ nl)" "\<not> is_header (''plate boundary file'' @ nl)"
    by code_simp+
  have ex: "\<exists>body w e. (\<forall>c \<in> set w. isspace c) \<and> (e = [] \<or> e = nl)
              \<and> ''10.0 40.0'' @ nl = body @ e \<and> ''10.0 40.0  '' @ nl = body @ w @ e"
    by (rule exI[of _ "''10.0 40.0''"], rule exI[of _ "''  ''"], rule exI[of _ nl])
       (simp add: isspace_def)
  have h: "list_all2 (\<lambda>l l'. l' = l \<or> (\<not> is_header l \<and> (\<exists>body w e. (\<forall>c \<in> set w. isspace c)
                      \<and> (e = [] \<or> e = nl) \<and> l = body @ e \<and> l' = body @ w @ e)))
     [''> AR'' @ nl, ''10.0 40.0'' @ nl, ''> AR'' @ nl]
     [''> AR'' @ nl, ''10.0 40.0  '' @ nl, ''> AR'' @ nl]"
    using nh(1) ex by simp
  have b: "\<forall>c \<in> set nl. isspace c" by (simp add: nl_def isspace_def)
  have v: "vertices \<lparr>key = Some ''AR'', vertices = Some [[10, 40]], outlines = ([] :: (string, rat list list) dict)\<rparr>
             = Some [[10, 40]]"
    by simp
  have r: "read_outlines tofloat_ex ''lalo'' (plate_abbrev2name catalog_ex)
        [''> AR'' @ nl, ''10.0 40.0'' @ nl, ''> AR'' @ nl]
       = Inr [(''Arabia'', [[10, 40]])]"
    by code_simp
  have n: "\<And>msg. read_outlines tofloat_ex ''lalo'' (plate_abbrev2name catalog_ex)
        [''plate boundary file'' @ nl, ''> AR'' @ nl, ''10.0 40.0'' @ nl, ''> AR'' @ nl]
       \<noteq> Inl (AttributeError msg)"
    by code_simp
  from trailing_whitespace_tolerated[OF h nh(2) b v, of tofloat_ex "''lalo''"
      "plate_abbrev2name catalog_ex" "[''> AR'' @ nl, ''10.0 40.0'' @ nl, ''> AR'' @ nl]"] h nh b r n
  show ?thesis by (simp add: list_all_iff)
qed

text \<open>
  C5 (as stated) fails: with a noise line or a blank line before the first header the
  function raises, where the file without that line gives Arabia's outline; a blank
  line between two headers adds an empty vertex, where the file without it gives no
  outline.
\<close>

theorem leading_noise_not_tolerated:
  "\<not> is_header (''plate boundary file'' @ nl)
   \<and> read_boundary_file tofloat_ex catalog_ex ''plate_outlines.lalo''
       [''plate boundary file'' @ nl, ''> AR'' @ nl, ''10.0 40.0'' @ nl, ''> AR'' @ nl] None
       = Inl (ValueError (''could not convert string to float: '' @ quoted ''plate''))
   \<and> read_boundary_file tofloat_ex catalog_ex ''plate_outlines.lalo''
       [nl, ''> AR'' @ nl, ''10.0 40.0'' @ nl, ''> AR'' @ nl] None
       = Inl (AttributeError (quoted ''NoneType'' @ '' object has no attribute ''
                @ quoted ''append''))
   \<and> read_boundary_file tofloat_ex catalog_ex ''plate_outlines.lalo''
       [''> AR'' @ nl, ''10.0 40.0'' @ nl, ''> AR'' @ nl] None
       = Inr (Outlines [(''Arabia'', [[10, 40]])])
   \<and> read_boundary_file tofloat_ex catalog_ex ''plate_outlines.lalo''
       [''> AR'' @ nl, nl, ''> AR'' @ nl] None
       = Inr (Outlines [(''Arabia'', [[]])])
   \<and> read_boundary_file tofloat_ex catalog_ex ''plate_outlines.lalo''
       [''> AR'' @ nl, ''> AR'' @ nl] None
       = Inr (Outlines [])"
  by code_simp

section \<open>Records and the abbreviation table\<close>

lemma read_line_header_state:
  assumes "is_header h" and "header_key h = Inr k" and "read_line f co tbl st h = Inr st'"
  shows "key st' = Some k \<and> vertices st' = Some []"
  using assms by (auto simp: read_line_def split: sum.splits)

lemma read_lines_data:
  assumes "\<forall>d \<in> set ds. \<not> is_header d \<and> (\<forall>t \<in> set (split_ws d). f t \<noteq> None)"
    and "vertices st = Some vs"
  shows "\<exists>ws. length ws = length ds
           \<and> read_lines f co tbl st ds = Inr (st\<lparr>vertices := Some (vs @ ws)\<rparr>)"
  using assms
proof (induction ds arbitrary: st vs)
  case Nil
  then show ?case by simp
next
  case (Cons d ds)
  let ?xs = "map (\<lambda>t. the (f t)) (split_ws d)"
  let ?v = "if co = ''lola'' then rev ?xs else ?xs"
  from Cons.prems(1) have nh: "\<not> is_header d" and ok: "\<forall>t \<in> set (split_ws d). f t \<noteq> None"
    by auto
  from ok have "map f (split_ws d) = map Some ?xs" by auto
  with nh Cons.prems(2)
  have step: "read_line f co tbl st d = Inr (st\<lparr>vertices := Some (vs @ [?v])\<rparr>)"
    by (rule read_line_data)
  from Cons.prems(1) have rest: "\<forall>d \<in> set ds. \<not> is_header d \<and> (\<forall>t \<in> set (split_ws d). f t \<noteq> None)"
    by simp
  obtain ws where "length ws = length ds"
    and "read_lines f co tbl (st\<lparr>vertices := Some (vs @ [?v])\<rparr>) ds
           = Inr (st\<lparr>vertices := Some (vs @ [?v])\<rparr>\<lparr>vertices := Some ((vs @ [?v]) @ ws)\<rparr>)"
    using Cons.IH[OF rest, of "st\<lparr>vertices := Some (vs @ [?v])\<rparr>" "vs @ [?v]"] by auto
  with step show ?case
    by (intro exI[of _ "?v # ws"]) simp
qed

lemma pending_record_KeyError:
  assumes pre: "read_lines f co tbl reader_init (pre @ [h]) = Inr st"
    and h: "is_header h" "header_key h = Inr k" and k: "k \<noteq> []" "map_of tbl k = None"
    and ds: "ds \<noteq> []" "\<forall>d \<in> set ds. \<not> is_header d \<and> (\<forall>t \<in> set (split_ws d). f t \<noteq> None)"
    and h': "is_header h'"
  shows "read_outlines f co tbl (pre @ h # ds @ h' # rest) = Inl (KeyError k)"
proof -
  obtain st0 where st0: "read_lines f co tbl reader_init pre = Inr st0"
    and sth: "read_line f co tbl st0 h = Inr st"
    using pre by (auto simp: read_lines_append split: sum.splits)
  from read_line_header_state[OF h sth] have kv: "key st = Some k" "vertices st = Some []"
    by auto
  obtain ws where len: "length ws = length ds"
    and run: "read_lines f co tbl st ds = Inr (st\<lparr>vertices := Some ([] @ ws)\<rparr>)"
    using read_lines_data[OF ds(2) kv(2)] by blast
  from len ds(1) have "ws \<noteq> []" by auto
  with kv k have "commit tbl (st\<lparr>vertices := Some ([] @ ws)\<rparr>) = Inl (KeyError k)"
    by (simp add: commit_def dict_get_def)
  with h' have "read_line f co tbl (st\<lparr>vertices := Some ([] @ ws)\<rparr>) h' = Inl (KeyError k)"
    by (simp add: read_line_def)
  then have "read_lines f co tbl st (ds @ h' # rest) = Inl (KeyError k)"
    using run by (simp add: read_lines_append)
  then have "read_lines f co tbl reader_init ((pre @ [h]) @ ds @ h' # rest) = Inl (KeyError k)"
    using pre by (simp only: read_lines_append[of f co tbl reader_init "pre @ [h]"] sum.case)
  then show ?thesis by (simp add: read_outlines_def)
qed

text \<open>
  C6 (as the code has it).  When the lines up to and including a header are read
  without error, the header names an abbreviation that is not a key of the table, at
  least one coordinate line follows it, all of them convertible, and then another header
  line, the function raises \<open>KeyError\<close> (a \<open>LookupError\<close>) whose only argument is the
  missing abbreviation.
\<close>

theorem unknown_abbreviation_KeyError:
  assumes "read_lines tofloat coord_order tbl reader_init (pre @ [h]) = Inr st"
    and "is_header h" and "header_key h = Inr k" and "k \<noteq> []" and "map_of tbl k = None"
    and "ds \<noteq> []"
    and "\<forall>d \<in> set ds. \<not> is_header d \<and> (\<forall>t \<in> set (split_ws d). tofloat t \<noteq> None)"
    and "is_header h'"
  shows "read_outlines tofloat coord_order tbl (pre @ h # ds @ h' # rest) = Inl (KeyError k)"
  using assms by (rule pending_record_KeyError)

lemma map_of_fold_update:
  "map_of (fold (\<lambda>(key, val) d. AList.update (g val) key d) xs acc) k = Some name \<Longrightarrow>
   map_of acc k = Some name \<or> (\<exists>tag. (name, tag) \<in> set xs \<and> k = g tag)"
proof (induction xs arbitrary: acc)
  case Nil
  then show ?case by simp
next
  case (Cons x xs)
  obtain n t where x: "x = (n, t)" by (cases x)
  from Cons.prems have "map_of (fold (\<lambda>(key, val) d. AList.update (g val) key d) xs
                           (AList.update (g t) n acc)) k = Some name"
    by (simp add: x)
  from Cons.IH[OF this] show ?case
    by (auto simp: x update_conv' split: if_splits)
qed

lemma plate_abbrev2name_resolves:
  assumes "dict_get (plate_abbrev2name pmm_dict) k = Inr name"
  shows "\<exists>tag. (name, tag) \<in> set pmm_dict \<and> k = upper (Abbrev tag)"
proof -
  from assms have "map_of (plate_abbrev2name pmm_dict) k = Some name"
    by (simp add: dict_get_def split: option.splits)
  then show ?thesis
    unfolding plate_abbrev2name_def
    using map_of_fold_update[of "\<lambda>tag. upper (Abbrev tag)" pmm_dict "[]" k name] by simp
qed

lemma plate_abbrev2name_not_upper:
  assumes "upper k \<noteq> k"
  shows "map_of (plate_abbrev2name pmm_dict) k = None"
proof (rule ccontr)
  assume "map_of (plate_abbrev2name pmm_dict) k \<noteq> None"
  then obtain name where n: "dict_get (plate_abbrev2name pmm_dict) k = Inr name"
    by (auto simp: dict_get_def)
  obtain tag :: Tag where "k = upper (Abbrev tag)"
    using plate_abbrev2name_resolves[OF n] by auto
  then have "upper k = k" by (simp add: upper_idem)
  with assms show False by blast
qed

text \<open>
  C10 (as the code has it).  The keys of the abbreviation table are the uppercased abbreviations of the
  catalog, and the abbreviation of a header is looked up as it is written.  So an
  abbreviation that is not in uppercase form is never a key, even when its uppercase
  form is one: the lookup raises \<open>KeyError\<close>, at the header line that follows the record
  and its coordinate lines.  An abbreviation that resolves to a plate is the uppercase
  form of that plate's catalog abbreviation.
\<close>

theorem abbreviation_lookup_case_sensitive:
  assumes "upper k \<noteq> k"
    and "read_lines tofloat coord_order (plate_abbrev2name pmm_dict) reader_init (pre @ [h]) = Inr st"
    and "is_header h" and "header_key h = Inr k" and "k \<noteq> []"
    and "ds \<noteq> []"
    and "\<forall>d \<in> set ds. \<not> is_header d \<and> (\<forall>t \<in> set (split_ws d). tofloat t \<noteq> None)"
    and "is_header h'"
  shows "set (dict_keys (plate_abbrev2name pmm_dict))
           = (\<lambda>(name, tag). upper (Abbrev tag)) ` set pmm_dict
       \<and> dict_get (plate_abbrev2name pmm_dict) k = Inl (KeyError k)
       \<and> read_outlines tofloat coord_order (plate_abbrev2name pmm_dict) (pre @ h # ds @ h' # rest)
           = Inl (KeyError k)
       \<and> (dict_get (plate_abbrev2name pmm_dict) k' = Inr name
            \<longrightarrow> (\<exists>tag. (name, tag) \<in> set pmm_dict \<and> k' = upper (Abbrev tag)))"
proof (intro conjI)
  show "set (dict_keys (plate_abbrev2name pmm_dict))
           = (\<lambda>(name, tag). upper (Abbrev tag)) ` set pmm_dict"
    by (rule plate_abbrev2name_keys)
  have none: "map_of (plate_abbrev2name pmm_dict) k = None"
    using assms(1) by (rule plate_abbrev2name_not_upper)
  then show "dict_get (plate_abbrev2name pmm_dict) k = Inl (KeyError k)"
    by (simp add: dict_get_def)
  show "read_outlines tofloat coord_order (plate_abbrev2name pmm_dict) (pre @ h # ds @ h' # rest)
           = Inl (KeyError k)"
    using assms(2-5) none assms(6-8) by (rule pending_record_KeyError)
  show "dict_get (plate_abbrev2name pmm_dict) k' = Inr name
            \<longrightarrow> (\<exists>tag. (name, tag) \<in> set pmm_dict \<and> k' = upper (Abbrev tag))"
    by (auto dest: plate_abbrev2name_resolves)
qed


theorem unknown_abbreviation_KeyError_witness:
  "read_lines tofloat_ex ''lalo'' (plate_abbrev2name catalog_ex) reader_init ([] @ [''> ZZ'' @ nl])
     = Inr \<lparr>key = Some ''ZZ'', vertices = Some [], outlines = []\<rparr>
   \<and> is_header (''> ZZ'' @ nl) \<and> header_key (''> ZZ'' @ nl) = Inr ''ZZ'' \<and> ''ZZ'' \<noteq> []
   \<and> map_of (plate_abbrev2name catalog_ex) ''ZZ'' = None
   \<and> [''1.0 2.0'' @ nl] \<noteq> []
   \<and> list_all (\<lambda>d. \<not> is_header d \<and> list_all (\<lambda>t. tofloat_ex t \<noteq> None) (split_ws d))
        [''1.0 2.0'' @ nl]
   \<and> is_header (''> AR'' @ nl)
   \<and> read_outlines tofloat_ex ''lalo'' (plate_abbrev2name catalog_ex)
        ([] @ (''> ZZ'' @ nl) # [''1.0 2.0'' @ nl] @ (''> AR'' @ nl) # [''10.0 40.0'' @ nl])
       = Inl (KeyError ''ZZ'')"
proof -
  have a: "read_lines tofloat_ex ''lalo'' (plate_abbrev2name catalog_ex) reader_init
             ([] @ [''> ZZ'' @ nl])
           = Inr \<lparr>key = Some ''ZZ'', vertices = Some [], outlines = []\<rparr>"
    by code_simp
  have b: "is_header (''> ZZ'' @ nl)" "header_key (''> ZZ'' @ nl) = Inr ''ZZ''" "''ZZ'' \<noteq> []"
    "map_of (plate_abbrev2name catalog_ex) ''ZZ'' = None" "[''1.0 2.0'' @ nl] \<noteq> []"
    by code_simp+
  have c: "list_all (\<lambda>d. \<not> is_header d \<and> list_all (\<lambda>t. tofloat_ex t \<noteq> None) (split_ws d))
        [''1.0 2.0'' @ nl]"
    by code_simp
  then have c': "\<forall>d \<in> set [''1.0 2.0'' @ nl].
                   \<not> is_header d \<and> (\<forall>t \<in> set (split_ws d). tofloat_ex t \<noteq> None)"
    by (simp add: list_all_iff)
  have d: "is_header (''> AR'' @ nl)" by code_simp
  from unknown_abbreviation_KeyError[OF a b c' d, of "[''10.0 40.0'' @ nl]"] a b c d
  show ?thesis by simp
qed

text \<open>
  C6 (as stated) fails: the \<open>KeyError\<close> raised for the unknown abbreviation \<open>ZZ\<close> holds
  the abbreviation alone; the path of the boundary file is not part of it.
\<close>

theorem KeyError_does_not_name_the_file:
  "read_boundary_file tofloat_ex catalog_ex ''/plate_boundary/MORVEL/plate_outlines.lalo''
       [''> ZZ'' @ nl, ''1.0 2.0'' @ nl, ''> AR'' @ nl] None
     = Inl (KeyError ''ZZ'')
   \<and> \<not> str_in ''/plate_boundary/MORVEL/plate_outlines.lalo'' ''ZZ''
   \<and> \<not> str_in ''plate_outlines.lalo'' ''ZZ''"
  by code_simp

theorem abbreviation_lookup_case_sensitive_witness:
  "upper ''ar'' \<noteq> ''ar''
   \<and> read_lines tofloat_ex ''lalo'' (plate_abbrev2name catalog_ex) reader_init ([] @ [''> ar'' @ nl])
     = Inr \<lparr>key = Some ''ar'', vertices = Some [], outlines = []\<rparr>
   \<and> is_header (''> ar'' @ nl) \<and> header_key (''> ar'' @ nl) = Inr ''ar'' \<and> ''ar'' \<noteq> []
   \<and> [''10.0 40.0'' @ nl] \<noteq> []
   \<and> list_all (\<lambda>d. \<not> is_header d \<and> list_all (\<lambda>t. tofloat_ex t \<noteq> None) (split_ws d))
        [''10.0 40.0'' @ nl]
   \<and> is_header (''> AR'' @ nl)
   \<and> set (dict_keys (plate_abbrev2name catalog_ex)) = {''AR''}
   \<and> dict_get (plate_abbrev2name catalog_ex) ''ar'' = Inl (KeyError ''ar'')
   \<and> read_outlines tofloat_ex ''lalo'' (plate_abbrev2name catalog_ex)
        ([] @ (''> ar'' @ nl) # [''10.0 40.0'' @ nl] @ (''> AR'' @ nl) # [])
       = Inl (KeyError ''ar'')
   \<and> dict_get (plate_abbrev2name catalog_ex) ''AR'' = Inr ''Arabia''
   \<and> (\<exists>tag. (''Arabia'', tag) \<in> set catalog_ex \<and> ''AR'' = upper (Abbrev tag))"
proof -
  have u: "upper ''ar'' \<noteq> ''ar''" by code_simp
  have a: "read_lines tofloat_ex ''lalo'' (plate_abbrev2name catalog_ex) reader_init
             ([] @ [''> ar'' @ nl])
           = Inr \<lparr>key = Some ''ar'', vertices = Some [], outlines = []\<rparr>"
    by code_simp
  have b: "is_header (''> ar'' @ nl)" "header_key (''> ar'' @ nl) = Inr ''ar''" "''ar'' \<noteq> []"
    "[''10.0 40.0'' @ nl] \<noteq> []"
    by code_simp+
  have c: "list_all (\<lambda>d. \<not> is_header d \<and> list_all (\<lambda>t. tofloat_ex t \<noteq> None) (split_ws d))
        [''10.0 40.0'' @ nl]"
    by code_simp
  then have c': "\<forall>d \<in> set [''10.0 40.0'' @ nl].
                   \<not> is_header d \<and> (\<forall>t \<in> set (split_ws d). tofloat_ex t \<noteq> None)"
    by (simp add: list_all_iff)
  have d: "is_header (''> AR'' @ nl)" by code_simp
  have e: "dict_get (plate_abbrev2name catalog_ex) ''AR'' = Inr ''Arabia''" by code_simp
  have k: "(\<lambda>(name, tag). upper (Abbrev tag)) ` set catalog_ex = {''AR''}"
    by (simp add: catalog_ex_def upper_def upper_char_def)
  from abbreviation_lookup_case_sensitive[OF u a b c' d, of "[]" "''AR''" "''Arabia''"]
    u a b c d e k
  show ?thesis by simp
qed

text \<open>
  C10 (as stated) fails: a header in lowercase, \<open>ar\<close> for the catalog's \<open>AR\<close>, does not
  make the lookup fail when no coordinate line follows it before the next header: the
  abbreviation is never looked up and the file parses.  The same holds when the record
  is the last of the file.
\<close>

theorem lowercase_header_without_lookup:
  "upper ''ar'' = ''AR''
   \<and> read_boundary_file tofloat_ex catalog_ex ''plate_outlines.lalo''
       [''> ar'' @ nl, ''> AR'' @ nl, ''10.0 40.0'' @ nl, ''> AR'' @ nl] None
     = Inr (Outlines [(''Arabia'', [[10, 40]])])
   \<and> read_boundary_file tofloat_ex catalog_ex ''plate_outlines.lalo''
       [''> ar'' @ nl, ''10.0 40.0'' @ nl, ''12.0 42.0'' @ nl] None
     = Inr (Outlines [])"
  by code_simp

section \<open>The outline of one plate\<close>









section \<open>The sample points\<close>

lemma mask_zip:
  "length xs = length ys \<Longrightarrow>
   zip (mask xs (map P (zip xs ys))) (mask ys (map P (zip xs ys))) = filter P (zip xs ys)
   \<and> length (mask xs (map P (zip xs ys))) = length (mask ys (map P (zip xs ys)))"
proof (induction xs ys rule: list_induct2)
  case Nil
  show ?case by (simp add: mask_def)
next
  case (Cons x xs y ys)
  then show ?case by (simp add: mask_def)
qed

lemma sample_coords_filter:
  assumes "candidate_coords polygon_obj ny nx = Inr (cand_lats, cand_lons)"
    and "length cand_lats = length cand_lons"
  shows "\<exists>lats lons. sample_coords_within_polygon contains polygon_obj ny nx = Inr (lats, lons)
           \<and> length lats = length lons
           \<and> zip lats lons = filter (contains polygon_obj) (zip cand_lats cand_lons)"
proof -
  let ?flag = "map (contains polygon_obj) (zip cand_lats cand_lons)"
  have "sample_coords_within_polygon contains polygon_obj ny nx
          = Inr (mask cand_lats ?flag, mask cand_lons ?flag)"
    using assms(1) by (simp add: sample_coords_within_polygon_def Let_def case_prod_eta)
  with mask_zip[OF assms(2), of "contains polygon_obj"] show ?thesis by simp
qed

lemma zip_meshgrid:
  "zip (flatten (fst (meshgrid x y))) (flatten (snd (meshgrid x y)))
     = concat (map (\<lambda>b. map (\<lambda>a. (a, b)) x) y)
   \<and> length (flatten (fst (meshgrid x y))) = length (flatten (snd (meshgrid x y)))"
  by (induction y) (simp_all add: meshgrid_def flatten_def zip_map2 zip_same_conv_map)

lemma upt_0_11: "[0 ..< 11] = [0, 1, 2, 3, 4, 5, 6, 7, 8, 9, 10 :: nat]"
  by code_simp

lemma linspace_0_10_11: "linspace 0 10 11 = Inr (map real [0 ..< 11])"
  by (simp add: linspace_def Let_def upt_0_11)

lemma candidate_coords_square:
  "\<exists>cand_lats cand_lons.
     candidate_coords (Polygon [[0, 0], [0, 10], [10, 10], [10, 0]]) 11 11
       = Inr (cand_lats, cand_lons)
     \<and> length cand_lats = length cand_lons
     \<and> zip cand_lats cand_lons
         = concat (map (\<lambda>lon. map (\<lambda>lat. (lat, lon)) (map real [0 ..< 11])) (map real [0 ..< 11]))"
proof -
  let ?x = "map real [0 ..< 11]"
  have "candidate_coords (Polygon [[0, 0], [0, 10], [10, 10], [10, 0]]) 11 11
          = Inr (flatten (fst (meshgrid ?x ?x)), flatten (snd (meshgrid ?x ?x)))"
    by (simp add: candidate_coords_def exterior_coords_def close_ring_def column_def
          np_min_def np_max_def
          linspace_0_10_11 case_prod_unfold Let_def del: upt_rec_numeral map_map)
  with zip_meshgrid[of ?x ?x] show ?thesis by simp
qed


lemma grid_member:
  "(a, b) \<in> set (concat (map (\<lambda>lon. map (\<lambda>lat. (lat, lon)) xs) ys)) \<longleftrightarrow> a \<in> set xs \<and> b \<in> set ys"
  by auto

lemma linspace_member:
  "x \<in> set (map real [0 ..< 11]) \<longleftrightarrow> x \<in> {0, 1, 2, 3, 4, 5, 6, 7, 8, 9, 10}"
  unfolding upt_0_11 by simp

text \<open>
  C8.  For the square (0,0)-(0,10)-(10,10)-(10,0) and \<open>ny = nx = 11\<close>, whatever the
  containment predicate: the candidates are the 121 points (lat, lon) with both
  coordinates in 0, 1, ..., 10, longitude by longitude, the corners included; the function
  returns, without error, two sequences of one length that hold exactly the candidates
  that the predicate accepts, in the order of the candidates; (5,5) is returned when the
  predicate accepts it (as shapely's does), (20,20) never is; and when the predicate
  accepts no point the result is the pair of empty sequences.
\<close>

theorem square_samples:
  "\<exists>cand_lats cand_lons sample_lats sample_lons.
     candidate_coords (Polygon [[0, 0], [0, 10], [10, 10], [10, 0]]) 11 11
       = Inr (cand_lats, cand_lons)
     \<and> zip cand_lats cand_lons
         = concat (map (\<lambda>lon. map (\<lambda>lat. (lat, lon)) (map real [0 ..< 11])) (map real [0 ..< 11]))
     \<and> (0, 0) \<in> set (zip cand_lats cand_lons) \<and> (10, 10) \<in> set (zip cand_lats cand_lons)
     \<and> (\<forall>(lat, lon) \<in> set (zip cand_lats cand_lons). 0 \<le> lat \<and> lat \<le> 10 \<and> 0 \<le> lon \<and> lon \<le> 10)
     \<and> sample_coords_within_polygon contains (Polygon [[0, 0], [0, 10], [10, 10], [10, 0]]) 11 11
         = Inr (sample_lats, sample_lons)
     \<and> length sample_lats = length sample_lons
     \<and> zip sample_lats sample_lons
         = filter (contains (Polygon [[0, 0], [0, 10], [10, 10], [10, 0]])) (zip cand_lats cand_lons)
     \<and> (\<forall>p \<in> set (zip sample_lats sample_lons).
           contains (Polygon [[0, 0], [0, 10], [10, 10], [10, 0]]) p)
     \<and> (contains (Polygon [[0, 0], [0, 10], [10, 10], [10, 0]]) (5, 5)
           \<longrightarrow> (5, 5) \<in> set (zip sample_lats sample_lons))
     \<and> (20, 20) \<notin> set (zip sample_lats sample_lons)
     \<and> ((\<forall>p. \<not> contains (Polygon [[0, 0], [0, 10], [10, 10], [10, 0]]) p)
           \<longrightarrow> sample_lats = [] \<and> sample_lons = [])"
proof -
  let ?sq = "Polygon [[0, 0], [0, 10], [10, 10], [10, 0 :: real]]"
  obtain cand_lats cand_lons where c: "candidate_coords ?sq 11 11 = Inr (cand_lats, cand_lons)"
    and len: "length cand_lats = length cand_lons"
    and grid: "zip cand_lats cand_lons
         = concat (map (\<lambda>lon. map (\<lambda>lat. (lat, lon)) (map real [0 ..< 11])) (map real [0 ..< 11]))"
    using candidate_coords_square by blast
  obtain sample_lats sample_lons
    where s: "sample_coords_within_polygon contains ?sq 11 11 = Inr (sample_lats, sample_lons)"
    and slen: "length sample_lats = length sample_lons"
    and sel: "zip sample_lats sample_lons = filter (contains ?sq) (zip cand_lats cand_lons)"
    using sample_coords_filter[OF c len, of contains] by blast
  have mem: "\<And>a b. (a, b) \<in> set (zip cand_lats cand_lons)
               \<longleftrightarrow> a \<in> {0, 1, 2, 3, 4, 5, 6, 7, 8, 9, 10} \<and> b \<in> {0, 1, 2, 3, 4, 5, 6, 7, 8, 9, 10}"
    unfolding grid grid_member linspace_member by (rule refl)
  have c00: "(0, 0) \<in> set (zip cand_lats cand_lons)" unfolding mem by simp
  have c10: "(10, 10) \<in> set (zip cand_lats cand_lons)" unfolding mem by simp
  have bounds: "\<forall>(lat, lon) \<in> set (zip cand_lats cand_lons).
                  0 \<le> lat \<and> lat \<le> 10 \<and> 0 \<le> lon \<and> lon \<le> 10"
  proof (intro ballI, clarify)
    fix lat lon :: real
    assume "(lat, lon) \<in> set (zip cand_lats cand_lons)"
    then have "lat \<in> {0, 1, 2, 3, 4, 5, 6, 7, 8, 9, 10}" "lon \<in> {0, 1, 2, 3, 4, 5, 6, 7, 8, 9, 10}"
      unfolding mem by blast+
    then show "0 \<le> lat \<and> lat \<le> 10 \<and> 0 \<le> lon \<and> lon \<le> 10" by auto
  qed
  have inside: "\<forall>p \<in> set (zip sample_lats sample_lons). contains ?sq p"
    by (simp add: sel)
  have c55: "(5, 5) \<in> set (zip cand_lats cand_lons)" unfolding mem by simp
  have five: "contains ?sq (5, 5) \<longrightarrow> (5, 5) \<in> set (zip sample_lats sample_lons)"
    using c55 by (simp add: sel)
  have "(20, 20) \<notin> set (zip cand_lats cand_lons)" unfolding mem by simp
  then have twenty: "(20, 20) \<notin> set (zip sample_lats sample_lons)"
    by (simp add: sel)
  have empty: "(\<forall>p. \<not> contains ?sq p) \<longrightarrow> sample_lats = [] \<and> sample_lons = []"
  proof
    assume "\<forall>p. \<not> contains ?sq p"
    then have "zip sample_lats sample_lons = []" by (auto simp: sel filter_empty_conv)
    with slen show "sample_lats = [] \<and> sample_lons = []"
      by (cases sample_lats; cases sample_lons) auto
  qed
  show ?thesis
    apply (rule exI[of _ cand_lats], rule exI[of _ cand_lons])
    apply (rule exI[of _ sample_lats], rule exI[of _ sample_lons])
    apply (intro conjI)
    apply (rule c, rule grid, rule c00, rule c10, rule bounds, rule s, rule slen, rule sel)
    apply (rule inside, rule five, rule twenty, rule empty)
    done
qed


theorem square_samples_witness:
  "(\<lambda>(p :: real polygon) (lat :: real, lon :: real). 0 < lat \<and> lat < 10 \<and> 0 < lon \<and> lon < 10)
      (Polygon [[0, 0], [0, 10], [10, 10], [10, 0]]) (5, 5)
   \<and> (\<exists>sample_lats sample_lons.
        sample_coords_within_polygon
          (\<lambda>(p :: real polygon) (lat :: real, lon :: real). 0 < lat \<and> lat < 10 \<and> 0 < lon \<and> lon < 10)
          (Polygon [[0, 0], [0, 10], [10, 10], [10, 0]]) 11 11
          = Inr (sample_lats, sample_lons)
        \<and> length sample_lats = length sample_lons
        \<and> (5, 5) \<in> set (zip sample_lats sample_lons)
        \<and> (20, 20) \<notin> set (zip sample_lats sample_lons))"
proof -
  let ?box = "\<lambda>(p :: real polygon) (lat :: real, lon :: real). 0 < lat \<and> lat < 10 \<and> 0 < lon \<and> lon < 10"
  have h: "?box (Polygon [[0, 0], [0, 10], [10, 10], [10, 0]]) (5, 5)" by simp
  from square_samples[of ?box] h show ?thesis by blast
qed

section \<open>The velocity vectors\<close>


lemma pow_le: "j \<le> k \<Longrightarrow> (2::real) ^ j \<le> 2 ^ k"
  by (rule power_increasing) simp_all

lemma inv_pow_le: "j \<le> k \<Longrightarrow> 1 / (2::real) ^ k \<le> 1 / 2 ^ j"
  by (rule frac_le) (simp_all add: power_increasing)

lemma inv_pow_pos: "0 < 1 / (2::real) ^ k"
  by simp

lemma window_pos: "1 / 2 ^ k \<le> (y::real) \<Longrightarrow> 0 < y"
  using inv_pow_pos[of k] by linarith

lemma window_nonzero: "1 / 2 ^ k \<le> \<bar>y::real\<bar> \<Longrightarrow> y \<noteq> 0"
  using window_pos[of k "\<bar>y\<bar>"] by auto

lemma round_in:
  assumes R: "rounds_within_half rnd" and lo: "1 / 2 ^ k \<le> \<bar>x\<bar>" and hi: "\<bar>x\<bar> \<le> 2 ^ k"
    and k: "k \<le> 1022"
  shows "\<exists>y. round_to rnd x = Num y \<and> 1 / 2 ^ Suc k \<le> \<bar>y\<bar> \<and> \<bar>y\<bar> \<le> 2 ^ Suc k \<and> (0 < x \<longrightarrow> 0 < y)"
proof -
  from lo have x0: "x \<noteq> 0" by (rule window_nonzero)
  have "1 / (2::real) ^ 1022 \<le> 1 / 2 ^ k" using k by (rule inv_pow_le)
  with lo have a: "1 / 2 ^ 1022 \<le> \<bar>x\<bar>" by (rule order_trans[rotated])
  from k have "k \<le> 1023" by simp
  then have "(2::real) ^ k \<le> 2 ^ 1023" by (rule pow_le)
  with hi have b: "\<bar>x\<bar> \<le> 2 ^ 1023" by (rule order_trans)
  from R a b obtain y where y: "rnd x = Num y" and d: "\<bar>y - x\<bar> \<le> \<bar>x\<bar> / 2"
    unfolding rounds_within_half_def by blast
  from d have l: "\<bar>x\<bar> / 2 \<le> \<bar>y\<bar>" and u: "\<bar>y\<bar> \<le> 2 * \<bar>x\<bar>" by linarith+
  have e1: "1 / (2::real) ^ Suc k = 1 / 2 ^ k / 2" by simp
  have e2: "(2::real) ^ Suc k = 2 * 2 ^ k" by simp
  from lo have "1 / 2 ^ k / 2 \<le> \<bar>x\<bar> / 2" by (rule divide_right_mono) simp
  with l have l': "1 / 2 ^ Suc k \<le> \<bar>y\<bar>" unfolding e1 by (rule order_trans[rotated])
  from hi have "2 * \<bar>x\<bar> \<le> 2 * 2 ^ k" by (rule mult_left_mono) simp
  with u have u': "\<bar>y\<bar> \<le> 2 ^ Suc k" unfolding e2 by (rule order_trans)
  from d have s: "0 < x \<longrightarrow> 0 < y" by linarith
  have "round_to rnd x = Num y" using x0 y by (simp add: round_to_def)
  with l' u' s show ?thesis by blast
qed





lemma window_product:
  fixes x y :: real
  assumes "1 / 2 ^ j \<le> \<bar>x\<bar>" "\<bar>x\<bar> \<le> 2 ^ j" "1 / 2 ^ k \<le> \<bar>y\<bar>" "\<bar>y\<bar> \<le> 2 ^ k"
  shows "1 / 2 ^ (j + k) \<le> \<bar>x * y\<bar>" and "\<bar>x * y\<bar> \<le> 2 ^ (j + k)"
proof -
  have e1: "1 / (2::real) ^ (j + k) = 1 / 2 ^ j * (1 / 2 ^ k)" by (simp add: power_add)
  have e2: "(2::real) ^ (j + k) = 2 ^ j * 2 ^ k" by (simp add: power_add)
  have "1 / 2 ^ j * (1 / 2 ^ k) \<le> \<bar>x\<bar> * \<bar>y\<bar>"
    using assms(1,3) by (intro mult_mono) simp_all
  then show "1 / 2 ^ (j + k) \<le> \<bar>x * y\<bar>" unfolding e1 abs_mult .
  have "\<bar>x\<bar> * \<bar>y\<bar> \<le> 2 ^ j * 2 ^ k"
    using assms(2,4) by (intro mult_mono) simp_all
  then show "\<bar>x * y\<bar> \<le> 2 ^ (j + k)" unfolding e2 abs_mult .
qed

lemma window_inverse:
  fixes y :: real
  assumes "1 / 2 ^ k \<le> \<bar>y\<bar>" "\<bar>y\<bar> \<le> 2 ^ k"
  shows "1 / 2 ^ k \<le> \<bar>1 / y\<bar>" and "\<bar>1 / y\<bar> \<le> 2 ^ k"
proof -
  from assms(1) have y0: "0 < \<bar>y\<bar>" by (rule window_pos)
  have e: "\<bar>1 / y\<bar> = 1 / \<bar>y\<bar>" by (simp add: abs_divide)
  show "1 / 2 ^ k \<le> \<bar>1 / y\<bar>"
    unfolding e using assms(2) y0 by (intro frac_le) simp_all
  have "1 / \<bar>y\<bar> \<le> 1 / (1 / 2 ^ k)"
    using assms(1) inv_pow_pos[of k] by (intro frac_le) simp_all
  also have "\<dots> = 2 ^ k" by simp
  finally show "\<bar>1 / y\<bar> \<le> 2 ^ k" unfolding e .
qed

lemma window_quotient:
  fixes x y :: real
  assumes "1 / 2 ^ j \<le> \<bar>x\<bar>" "\<bar>x\<bar> \<le> 2 ^ j" "1 / 2 ^ k \<le> \<bar>y\<bar>" "\<bar>y\<bar> \<le> 2 ^ k"
  shows "1 / 2 ^ (j + k) \<le> \<bar>x / y\<bar>" and "\<bar>x / y\<bar> \<le> 2 ^ (j + k)"
proof -
  have e: "x / y = x * (1 / y)" by simp
  show "1 / 2 ^ (j + k) \<le> \<bar>x / y\<bar>" and "\<bar>x / y\<bar> \<le> 2 ^ (j + k)"
    unfolding e using window_product[OF assms(1,2) window_inverse[OF assms(3,4)]] by blast+
qed

lemma multiply_window:
  assumes R: "rounds_within_half rnd" and a: "in_window j a" and b: "in_window k b"
    and jk: "j + k \<le> 1022"
  shows "in_window (Suc (j + k)) (np_multiply rnd a b)"
proof -
  from a b obtain x y where x: "a = Num x" "1 / 2 ^ j \<le> \<bar>x\<bar>" "\<bar>x\<bar> \<le> 2 ^ j"
    and y: "b = Num y" "1 / 2 ^ k \<le> \<bar>y\<bar>" "\<bar>y\<bar> \<le> 2 ^ k"
    unfolding in_window_def by blast
  from round_in[OF R window_product[OF x(2,3) y(2,3)] jk]
  obtain z where "round_to rnd (x * y) = Num z" "1 / 2 ^ Suc (j + k) \<le> \<bar>z\<bar>"
    "\<bar>z\<bar> \<le> 2 ^ Suc (j + k)" by blast
  then show ?thesis unfolding in_window_def x(1) y(1) np_multiply.simps by blast
qed












lemma pos_window_Num: "pos_window k v \<Longrightarrow> \<exists>y. v = Num y"
  unfolding pos_window_def by blast



lemma correct_velocity_nth:
  assumes "length sample_lats = length ve" and "length vn = length ve" and "i < length ve"
  shows "(fst (correct_velocity rnd cos_deg2rad sample_lats ve vn) ! i,
          snd (correct_velocity rnd cos_deg2rad sample_lats ve vn) ! i)
           = renormalize rnd cos_deg2rad (sample_lats ! i) (ve ! i) (vn ! i)"
  using assms by (simp add: correct_velocity_def Let_def)





section \<open>The magnitude of the corrected vectors\<close>

subsection \<open>Magnitudes that agree within a factor\<close>

lemma close_refl: "0 \<le> a \<Longrightarrow> close \<rho> 0 a a"
  by (simp add: close_def)

lemma close_mono:
  assumes "close \<rho> j a b" and "j \<le> k" and "1 \<le> \<rho>"
  shows "close \<rho> k a b"
proof -
  from assms(1) have a: "0 \<le> a" and b: "0 \<le> b" and ab: "a \<le> b * \<rho> ^ j" and ba: "b \<le> a * \<rho> ^ j"
    unfolding close_def by blast+
  have p: "\<rho> ^ j \<le> \<rho> ^ k" using assms(2,3) by (rule power_increasing)
  have "b * \<rho> ^ j \<le> b * \<rho> ^ k" using p b by (rule mult_left_mono)
  moreover have "a * \<rho> ^ j \<le> a * \<rho> ^ k" using p a by (rule mult_left_mono)
  ultimately show ?thesis unfolding close_def using a b ab ba by linarith
qed

lemma close_trans:
  assumes "close \<rho> j a b" and "close \<rho> k b c" and "0 \<le> \<rho>"
  shows "close \<rho> (j + k) a c"
proof -
  from assms(1) have a: "0 \<le> a" and b: "0 \<le> b" and ab: "a \<le> b * \<rho> ^ j" and ba: "b \<le> a * \<rho> ^ j"
    unfolding close_def by blast+
  from assms(2) have c: "0 \<le> c" and bc: "b \<le> c * \<rho> ^ k" and cb: "c \<le> b * \<rho> ^ k"
    unfolding close_def by blast+
  have pj: "0 \<le> \<rho> ^ j" and pk: "0 \<le> \<rho> ^ k" using assms(3) by simp_all
  have "b * \<rho> ^ j \<le> (c * \<rho> ^ k) * \<rho> ^ j" using bc pj by (rule mult_right_mono)
  with ab have 1: "a \<le> c * \<rho> ^ (j + k)" by (simp add: power_add mult_ac)
  have "b * \<rho> ^ k \<le> (a * \<rho> ^ j) * \<rho> ^ k" using ba pk by (rule mult_right_mono)
  with cb have 2: "c \<le> a * \<rho> ^ (j + k)" by (simp add: power_add mult_ac)
  from a c 1 2 show ?thesis unfolding close_def by blast
qed

lemma close_mult:
  assumes "close \<rho> j a a'" and "close \<rho> k b b'" and "0 \<le> \<rho>"
  shows "close \<rho> (j + k) (a * b) (a' * b')"
proof -
  from assms(1) have a: "0 \<le> a" "0 \<le> a'" "a \<le> a' * \<rho> ^ j" "a' \<le> a * \<rho> ^ j"
    unfolding close_def by blast+
  from assms(2) have b: "0 \<le> b" "0 \<le> b'" "b \<le> b' * \<rho> ^ k" "b' \<le> b * \<rho> ^ k"
    unfolding close_def by blast+
  have "a * b \<le> (a' * \<rho> ^ j) * (b' * \<rho> ^ k)"
    using a(3) b(3) a(1) b(1) a(2) b(2) assms(3) by (intro mult_mono) simp_all
  then have 1: "a * b \<le> a' * b' * \<rho> ^ (j + k)" by (simp add: power_add mult_ac)
  have "a' * b' \<le> (a * \<rho> ^ j) * (b * \<rho> ^ k)"
    using a(4) b(4) a(1) b(1) a(2) b(2) assms(3) by (intro mult_mono) simp_all
  then have 2: "a' * b' \<le> a * b * \<rho> ^ (j + k)" by (simp add: power_add mult_ac)
  from a(1,2) b(1,2) 1 2 show ?thesis unfolding close_def by simp
qed

lemma close_inverse:
  assumes "close \<rho> k b b'" and "0 < b" and "0 < b'" and "0 < \<rho>"
  shows "close \<rho> k (1 / b) (1 / b')"
proof -
  from assms(1) have b: "b \<le> b' * \<rho> ^ k" "b' \<le> b * \<rho> ^ k"
    unfolding close_def by blast+
  have p: "0 < \<rho> ^ k" using assms(4) by simp
  have "1 / (b * \<rho> ^ k) \<le> 1 / b'" using b(2) assms(3) by (intro frac_le) simp_all
  then have "1 / b \<le> 1 / b' * \<rho> ^ k" using p assms(2) by (simp add: field_simps)
  moreover have "1 / (b' * \<rho> ^ k) \<le> 1 / b" using b(1) assms(2) by (intro frac_le) simp_all
  then have "1 / b' \<le> 1 / b * \<rho> ^ k" using p assms(3) by (simp add: field_simps)
  ultimately show ?thesis unfolding close_def using assms(2,3) by simp
qed

lemma close_div:
  assumes "close \<rho> j a a'" and "close \<rho> k b b'" and "0 < b" and "0 < b'" and "0 < \<rho>"
  shows "close \<rho> (j + k) (a / b) (a' / b')"
proof -
  have "close \<rho> (j + k) (a * (1 / b)) (a' * (1 / b'))"
    using assms(1) close_inverse[OF assms(2-5)] assms(5) by (intro close_mult) simp_all
  then show ?thesis by simp
qed

lemma close_add:
  assumes "close \<rho> k a a'" and "close \<rho> k b b'"
  shows "close \<rho> k (a + b) (a' + b')"
proof -
  from assms(1) have a: "0 \<le> a" "0 \<le> a'" "a \<le> a' * \<rho> ^ k" "a' \<le> a * \<rho> ^ k"
    unfolding close_def by blast+
  from assms(2) have b: "0 \<le> b" "0 \<le> b'" "b \<le> b' * \<rho> ^ k" "b' \<le> b * \<rho> ^ k"
    unfolding close_def by blast+
  have "a + b \<le> (a' + b') * \<rho> ^ k" "a' + b' \<le> (a + b) * \<rho> ^ k"
    using a(3,4) b(3,4) by (simp_all add: distrib_right)
  with a(1,2) b(1,2) show ?thesis unfolding close_def by simp
qed

lemma close_sqrt:
  assumes "close \<rho> (k + k) a b" and "0 \<le> \<rho>"
  shows "close \<rho> k (sqrt a) (sqrt b)"
proof -
  from assms(1) have a: "0 \<le> a" "0 \<le> b" "a \<le> b * \<rho> ^ (k + k)" "b \<le> a * \<rho> ^ (k + k)"
    unfolding close_def by blast+
  have p: "sqrt (\<rho> ^ (k + k)) = \<rho> ^ k"
    using assms(2) by (simp add: power_add real_sqrt_mult)
  have "sqrt a \<le> sqrt (b * \<rho> ^ (k + k))" using a(3) by simp
  then have 1: "sqrt a \<le> sqrt b * \<rho> ^ k" by (simp add: real_sqrt_mult p)
  have "sqrt b \<le> sqrt (a * \<rho> ^ (k + k))" using a(4) by simp
  then have 2: "sqrt b \<le> sqrt a * \<rho> ^ k" by (simp add: real_sqrt_mult p)
  from a(1,2) 1 2 show ?thesis unfolding close_def by simp
qed

subsection \<open>Exact results in the range of the floats\<close>

lemma zw_mono:
  assumes "zero_or_window j x" and "j \<le> k"
  shows "zero_or_window k x"
proof (cases "x = 0")
  case True then show ?thesis by (simp add: zero_or_window_def)
next
  case False
  with assms(1) have y: "1 / 2 ^ j \<le> \<bar>x\<bar>" "\<bar>x\<bar> \<le> 2 ^ j"
    unfolding zero_or_window_def by blast+
  from pow_le[OF assms(2)] inv_pow_le[OF assms(2)] y
  have "1 / 2 ^ k \<le> \<bar>x\<bar>" "\<bar>x\<bar> \<le> 2 ^ k" by linarith+
  then show ?thesis unfolding zero_or_window_def by blast
qed

lemma zw_mult:
  assumes "zero_or_window j x" and "zero_or_window k y"
  shows "zero_or_window (j + k) (x * y)"
proof (cases "x = 0 \<or> y = 0")
  case True then show ?thesis by (auto simp: zero_or_window_def)
next
  case False
  with assms have x: "1 / 2 ^ j \<le> \<bar>x\<bar>" "\<bar>x\<bar> \<le> 2 ^ j" and y: "1 / 2 ^ k \<le> \<bar>y\<bar>" "\<bar>y\<bar> \<le> 2 ^ k"
    unfolding zero_or_window_def by blast+
  from window_product[OF x y] show ?thesis unfolding zero_or_window_def by blast
qed

lemma zw_div:
  assumes "zero_or_window j x" and "1 / 2 ^ k \<le> \<bar>y\<bar>" and "\<bar>y\<bar> \<le> 2 ^ k"
  shows "zero_or_window (j + k) (x / y)"
proof (cases "x = 0")
  case True then show ?thesis by (simp add: zero_or_window_def)
next
  case False
  with assms have x: "1 / 2 ^ j \<le> \<bar>x\<bar>" "\<bar>x\<bar> \<le> 2 ^ j"
    unfolding zero_or_window_def by blast+
  from window_quotient[OF x assms(2,3)] show ?thesis unfolding zero_or_window_def by blast
qed

lemma add_bounds:
  fixes a b x y :: real
  assumes "0 < a" and "0 < b" and "x = 0 \<or> (a \<le> x \<and> x \<le> b)" and "y = 0 \<or> (a \<le> y \<and> y \<le> b)"
    and "\<not> (x = 0 \<and> y = 0)"
  shows "a / 2 \<le> x + y \<and> x + y \<le> 2 * b"
  using assms by auto

lemma zw_add:
  assumes "zero_or_window k x" and "zero_or_window k y" and "0 \<le> x" and "0 \<le> y"
  shows "zero_or_window (Suc k) (x + y)"
proof (cases "x = 0 \<and> y = 0")
  case True then show ?thesis by (simp add: zero_or_window_def)
next
  case False
  have e1: "1 / (2::real) ^ Suc k = 1 / 2 ^ k / 2" by simp
  have e2: "(2::real) ^ Suc k = 2 * 2 ^ k" by simp
  have p: "0 < 1 / (2::real) ^ k" by (rule inv_pow_pos)
  have q: "0 < (2::real) ^ k" by simp
  from assms(1,3) have x: "x = 0 \<or> (1 / 2 ^ k \<le> x \<and> x \<le> 2 ^ k)"
    unfolding zero_or_window_def by auto
  from assms(2,4) have y: "y = 0 \<or> (1 / 2 ^ k \<le> y \<and> y \<le> 2 ^ k)"
    unfolding zero_or_window_def by auto
  have "1 / 2 ^ k / 2 \<le> x + y \<and> x + y \<le> 2 * 2 ^ k"
    using p q x y False by (rule add_bounds)
  then have "1 / 2 ^ k / 2 \<le> x + y" "x + y \<le> 2 * 2 ^ k" by blast+
  then have b: "1 / 2 ^ k / 2 \<le> \<bar>x + y\<bar>" "\<bar>x + y\<bar> \<le> 2 * 2 ^ k"
    using assms(3,4) by linarith+
  from b(1) have "1 / 2 ^ Suc k \<le> \<bar>x + y\<bar>" unfolding e1 .
  moreover from b(2) have "\<bar>x + y\<bar> \<le> 2 ^ Suc k" unfolding e2 .
  ultimately have "1 / 2 ^ Suc k \<le> \<bar>x + y\<bar>" "\<bar>x + y\<bar> \<le> 2 ^ Suc k" by blast+
  then show ?thesis unfolding zero_or_window_def by blast
qed

lemma zw_sqrt:
  assumes "zero_or_window k x" and "0 \<le> x"
  shows "zero_or_window k (sqrt x)"
proof (cases "x = 0")
  case True then show ?thesis by (simp add: zero_or_window_def)
next
  case False
  with assms have x: "1 / 2 ^ k \<le> x" "x \<le> 2 ^ k"
    unfolding zero_or_window_def by auto
  have s0: "0 \<le> sqrt x" using assms(2) by simp
  have ss: "sqrt x * sqrt x = x" using assms(2) by simp
  have one: "1 / (2::real) ^ k \<le> 1" "(1::real) \<le> 2 ^ k" by (simp_all add: field_simps)
  have "1 / 2 ^ k \<le> sqrt x \<and> sqrt x \<le> 2 ^ k"
  proof (cases "1 \<le> x")
    case True
    then have s1: "1 \<le> sqrt x" by simp
    have "sqrt x * 1 \<le> sqrt x * sqrt x" using s1 s0 by (rule mult_left_mono)
    then have "sqrt x \<le> x" unfolding ss by simp
    with s1 x one show ?thesis by linarith
  next
    case False
    then have s1: "sqrt x \<le> 1" by simp
    have "sqrt x * sqrt x \<le> sqrt x * 1" using s1 s0 by (rule mult_left_mono)
    then have "x \<le> sqrt x" unfolding ss by simp
    with s1 x one show ?thesis by linarith
  qed
  then have "1 / 2 ^ k \<le> \<bar>sqrt x\<bar>" "\<bar>sqrt x\<bar> \<le> 2 ^ k" using s0 by linarith+
  then show ?thesis unfolding zero_or_window_def by blast
qed

lemma zw_nonzero:
  assumes "zero_or_window k x" and "x \<noteq> 0"
  shows "1 / 2 ^ k \<le> \<bar>x\<bar>" and "\<bar>x\<bar> \<le> 2 ^ k"
  using assms unfolding zero_or_window_def by blast+

lemma round_step:
  assumes R: "rounds_within u rnd" and u0: "0 \<le> u" and u1: "u \<le> 1 / 2"
    and zw: "zero_or_window k x" and k: "k \<le> 1022"
  shows "\<exists>z. round_to rnd x = Num z \<and> zero_or_window (Suc k) z \<and> (z = 0 \<longleftrightarrow> x = 0)
           \<and> (0 \<le> x \<longrightarrow> 0 \<le> z) \<and> close (1 / (1 - u)) 1 \<bar>x\<bar> \<bar>z\<bar>"
proof (cases "x = 0")
  case True
  then show ?thesis by (simp add: round_to_def zero_or_window_def close_def)
next
  case False
  with zw have lo: "1 / 2 ^ k \<le> \<bar>x\<bar>" and hi: "\<bar>x\<bar> \<le> 2 ^ k"
    unfolding zero_or_window_def by blast+
  have "1 / (2::real) ^ 1022 \<le> 1 / 2 ^ k" using k by (rule inv_pow_le)
  with lo have a: "1 / 2 ^ 1022 \<le> \<bar>x\<bar>" by (rule order_trans[rotated])
  from k have "k \<le> 1023" by simp
  then have "(2::real) ^ k \<le> 2 ^ 1023" by (rule pow_le)
  with hi have b: "\<bar>x\<bar> \<le> 2 ^ 1023" by (rule order_trans)
  from R a b obtain y where y: "rnd x = Num y" and d: "\<bar>y - x\<bar> \<le> u * \<bar>x\<bar>"
    unfolding rounds_within_def by blast
  have "u * \<bar>x\<bar> \<le> 1 / 2 * \<bar>x\<bar>" using u1 by (rule mult_right_mono) simp
  then have h: "u * \<bar>x\<bar> \<le> \<bar>x\<bar> / 2" by simp
  from d h have l: "\<bar>x\<bar> / 2 \<le> \<bar>y\<bar>" and u: "\<bar>y\<bar> \<le> 2 * \<bar>x\<bar>" by linarith+
  have e1: "1 / (2::real) ^ Suc k = 1 / 2 ^ k / 2" by simp
  have e2: "(2::real) ^ Suc k = 2 * 2 ^ k" by simp
  from lo have "1 / 2 ^ k / 2 \<le> \<bar>x\<bar> / 2" by (rule divide_right_mono) simp
  with l have l': "1 / 2 ^ Suc k \<le> \<bar>y\<bar>" unfolding e1 by (rule order_trans[rotated])
  from hi have "2 * \<bar>x\<bar> \<le> 2 * 2 ^ k" by (rule mult_left_mono) simp
  with u have u': "\<bar>y\<bar> \<le> 2 ^ Suc k" unfolding e2 by (rule order_trans)
  from l' have y0: "y \<noteq> 0" by (rule window_nonzero)
  from d h False have s: "0 \<le> x \<longrightarrow> 0 \<le> y" by linarith
  have r: "round_to rnd x = Num y" using False y by (simp add: round_to_def)
  have pos: "0 < 1 - u" using u1 by simp
  from d have "\<bar>x\<bar> - u * \<bar>x\<bar> \<le> \<bar>y\<bar>" and "\<bar>y\<bar> \<le> \<bar>x\<bar> + u * \<bar>x\<bar>" by linarith+
  then have lower: "(1 - u) * \<bar>x\<bar> \<le> \<bar>y\<bar>" and upper: "\<bar>y\<bar> \<le> (1 + u) * \<bar>x\<bar>"
    by (simp_all add: algebra_simps)
  from lower have c1: "\<bar>x\<bar> \<le> \<bar>y\<bar> * (1 / (1 - u))"
    using pos by (simp add: field_simps)
  have "\<bar>y\<bar> * (1 - u) \<le> ((1 + u) * \<bar>x\<bar>) * (1 - u)"
    using upper pos by (intro mult_right_mono) simp_all
  also have "\<dots> = \<bar>x\<bar> - u * u * \<bar>x\<bar>" by (simp add: algebra_simps)
  also have "\<dots> \<le> \<bar>x\<bar>" by simp
  finally have "\<bar>y\<bar> * (1 - u) \<le> \<bar>x\<bar>" .
  then have c2: "\<bar>y\<bar> \<le> \<bar>x\<bar> * (1 / (1 - u))"
    using pos by (simp add: field_simps)
  have c: "close (1 / (1 - u)) 1 \<bar>x\<bar> \<bar>y\<bar>"
    unfolding close_def using c1 c2 by simp
  have z: "zero_or_window (Suc k) y" unfolding zero_or_window_def using l' u' by blast
  from r z y0 False s c show ?thesis by blast
qed

lemma round_step_to:
  assumes R: "rounds_within u rnd" and u0: "0 \<le> u" and u1: "u \<le> 1 / 2"
    and zw: "zero_or_window k x" and k: "k < m" and m: "m \<le> 1023"
  shows "\<exists>z. round_to rnd x = Num z \<and> zero_or_window m z \<and> (z = 0 \<longleftrightarrow> x = 0)
           \<and> (0 \<le> x \<longrightarrow> 0 \<le> z) \<and> close (1 / (1 - u)) 1 \<bar>x\<bar> \<bar>z\<bar>"
proof -
  from k m have "k \<le> 1022" by simp
  from round_step[OF R u0 u1 zw this] obtain z where
    z: "round_to rnd x = Num z" "zero_or_window (Suc k) z" "z = 0 \<longleftrightarrow> x = 0"
       "0 \<le> x \<longrightarrow> 0 \<le> z" "close (1 / (1 - u)) 1 \<bar>x\<bar> \<bar>z\<bar>"
    by blast
  from k have "Suc k \<le> m" by simp
  with z(2) have "zero_or_window m z" by (rule zw_mono)
  with z show ?thesis by blast
qed

lemma close_trans_to:
  assumes "close \<rho> j a b" and "close \<rho> k b c" and "1 \<le> \<rho>" and "j + k \<le> m"
  shows "close \<rho> m a c"
proof -
  from assms(3) have "0 \<le> \<rho>" by simp
  with assms(1,2) have "close \<rho> (j + k) a c" by (rule close_trans)
  then show ?thesis using assms(4,3) by (rule close_mono)
qed

lemma close_mult_to:
  assumes "close \<rho> j a a'" and "close \<rho> k b b'" and "1 \<le> \<rho>" and "j + k \<le> m"
  shows "close \<rho> m (a * b) (a' * b')"
proof -
  from assms(3) have "0 \<le> \<rho>" by simp
  with assms(1,2) have "close \<rho> (j + k) (a * b) (a' * b')" by (rule close_mult)
  then show ?thesis using assms(4,3) by (rule close_mono)
qed

lemma close_div_to:
  assumes "close \<rho> j a a'" and "close \<rho> k b b'" and "0 < b" and "0 < b'" and "1 \<le> \<rho>"
    and "j + k \<le> m"
  shows "close \<rho> m (a / b) (a' / b')"
proof -
  from assms(5) have "0 < \<rho>" by simp
  with assms(1-4) have "close \<rho> (j + k) (a / b) (a' / b')" by (rule close_div)
  then show ?thesis using assms(6,5) by (rule close_mono)
qed

lemma close_sqrt_to:
  assumes "close \<rho> m a b" and "1 \<le> \<rho>" and "m \<le> k + k"
  shows "close \<rho> k (sqrt a) (sqrt b)"
proof -
  from assms(2) have r: "0 \<le> \<rho>" by simp
  from assms(1,3,2) have "close \<rho> (k + k) a b" by (rule close_mono)
  then show ?thesis using r by (rule close_sqrt)
qed

lemma renormalize_close:
  assumes R: "rounds_within u rnd" and u0: "0 \<le> u" and u1: "u \<le> 1 / 2"
    and c: "cos_deg2rad lat = Num c" and clo: "1 / 2 ^ 60 \<le> \<bar>c\<bar>" and chi: "\<bar>c\<bar> \<le> 1"
    and e: "zero_or_window 100 e" and n: "zero_or_window 100 n" and nz: "e \<noteq> 0 \<or> n \<noteq> 0"
  shows "\<exists>e' n'. renormalize rnd cos_deg2rad lat (Num e) (Num n) = (Num e', Num n')
           \<and> close (1 / (1 - u)) 8 (sqrt (e * e + n * n)) (sqrt (e' * e' + n' * n'))"
proof -
  define \<rho> where "\<rho> = 1 / (1 - u)"
  have \<rho>1: "1 \<le> \<rho>" unfolding \<rho>_def using u0 u1 by (simp add: field_simps)
  note step = round_step_to[OF R u0 u1, folded \<rho>_def]
  have "(1::real) \<le> 2 ^ 60" by (rule one_le_power) simp
  with chi have chi': "\<bar>c\<bar> \<le> 2 ^ 60" by (rule order_trans)
  from clo have c0: "c \<noteq> 0" by (rule window_nonzero)
  txt \<open>the raw magnitude\<close>
  have z1: "zero_or_window (100 + 100) (e * e)" using e e by (rule zw_mult)
  from step[OF z1, of 201] obtain p0 where
    p0: "round_to rnd (e * e) = Num p0" "zero_or_window 201 p0" "p0 = 0 \<longleftrightarrow> e = 0"
        "0 \<le> p0" "close \<rho> 1 (e * e) p0"
    by auto
  have z2: "zero_or_window (100 + 100) (n * n)" using n n by (rule zw_mult)
  from step[OF z2, of 201] obtain q where
    q: "round_to rnd (n * n) = Num q" "zero_or_window 201 q" "q = 0 \<longleftrightarrow> n = 0"
        "0 \<le> q" "close \<rho> 1 (n * n) q"
    by auto
  from p0(3,4) q(3,4) nz have pq: "0 < p0 + q" by auto
  have z3: "zero_or_window (Suc 201) (p0 + q)" using p0(2) q(2) p0(4) q(4) by (rule zw_add)
  from step[OF z3, of 203] pq obtain s where
    s: "round_to rnd (p0 + q) = Num s" "zero_or_window 203 s" "0 < s"
        "close \<rho> 1 (p0 + q) s"
    by auto
  from s(3) have s0: "0 \<le> s" by simp
  have z4: "zero_or_window 203 (sqrt s)" using s(2) s0 by (rule zw_sqrt)
  from step[OF z4, of 204] s(3) obtain N where
    N: "round_to rnd (sqrt s) = Num N" "zero_or_window 204 N" "0 < N"
        "close \<rho> 1 (sqrt s) N"
    by auto
  txt \<open>the adjusted east component and its magnitude\<close>
  have z5: "zero_or_window (100 + 60) (e / c)" using e clo chi' by (rule zw_div)
  from step[OF z5, of 161] c0 obtain a where
    a: "round_to rnd (e / c) = Num a" "zero_or_window 161 a" "a = 0 \<longleftrightarrow> e = 0"
        "close \<rho> 1 \<bar>e / c\<bar> \<bar>a\<bar>"
    by auto
  have z6: "zero_or_window (161 + 161) (a * a)" using a(2) a(2) by (rule zw_mult)
  from step[OF z6, of 323] obtain p where
    p: "round_to rnd (a * a) = Num p" "zero_or_window 323 p" "p = 0 \<longleftrightarrow> a = 0"
        "0 \<le> p" "close \<rho> 1 (a * a) p"
    by auto
  have q': "zero_or_window 323 q" using q(2) by (rule zw_mono) simp
  from p(3,4) a(3) q(3,4) nz have pq2: "0 < p + q" by auto
  have z7: "zero_or_window (Suc 323) (p + q)" using p(2) q' p(4) q(4) by (rule zw_add)
  from step[OF z7, of 325] pq2 obtain s2 where
    s2: "round_to rnd (p + q) = Num s2" "zero_or_window 325 s2" "0 < s2"
        "close \<rho> 1 (p + q) s2"
    by auto
  from s2(3) have s20: "0 \<le> s2" by simp
  have z8: "zero_or_window 325 (sqrt s2)" using s2(2) s20 by (rule zw_sqrt)
  from step[OF z8, of 326] s2(3) obtain M where
    M: "round_to rnd (sqrt s2) = Num M" "zero_or_window 326 M" "0 < M"
        "close \<rho> 1 (sqrt s2) M"
    by auto
  txt \<open>the ratio of the two magnitudes\<close>
  from N(3) have N0: "N \<noteq> 0" by simp
  from M(3) N(3) have MN: "0 < M / N" by simp
  have z9: "zero_or_window (326 + 204) (M / N)"
    using M(2) zw_nonzero[OF N(2) N0] by (rule zw_div)
  have k9: "326 + 204 < (531::nat)" "(531::nat) \<le> 1023" by simp_all
  from step[OF z9 k9] obtain r where
    r': "round_to rnd (M / N) = Num r" "zero_or_window 531 r" "r = 0 \<longleftrightarrow> M / N = 0"
        "0 \<le> M / N \<longrightarrow> 0 \<le> r" "close \<rho> 1 \<bar>M / N\<bar> \<bar>r\<bar>"
    by blast
  from r'(3,4) MN have rpos: "0 < r" by linarith
  from MN have "\<bar>M / N\<bar> = M / N" by (rule abs_of_pos)
  moreover from rpos have "\<bar>r\<bar> = r" by (rule abs_of_pos)
  ultimately have rc: "close \<rho> 1 (M / N) r" using r'(5) by simp
  note r = r'(1,2) rpos rc
  from r(3) have r0: "r \<noteq> 0" by simp
  txt \<open>the two outputs\<close>
  have z10: "zero_or_window (161 + 531) (a / r)"
    using a(2) zw_nonzero[OF r(2) r0] by (rule zw_div)
  from step[OF z10, of 693] obtain oe where
    oe: "round_to rnd (a / r) = Num oe" "close \<rho> 1 \<bar>a / r\<bar> \<bar>oe\<bar>"
    by auto
  have z11: "zero_or_window (100 + 531) (n / r)"
    using n zw_nonzero[OF r(2) r0] by (rule zw_div)
  from step[OF z11, of 632] obtain on where
    on: "round_to rnd (n / r) = Num on" "close \<rho> 1 \<bar>n / r\<bar> \<bar>on\<bar>"
    by auto
  txt \<open>the code computes these values\<close>
  have sq_e: "np_square rnd (Num e) = Num p0" by (simp add: np_square_def p0(1))
  have sq_n: "np_square rnd (Num n) = Num q" by (simp add: np_square_def q(1))
  have add1: "np_add rnd (Num p0) (Num q) = Num s" by (simp add: s(1))
  have sqrt1: "np_sqrt rnd (Num s) = Num N" using s(3) by (simp add: N(1))
  have div1: "np_divide rnd (Num e) (Num c) = Num a" using c0 by (simp add: a(1))
  have sq_a: "np_square rnd (Num a) = Num p" by (simp add: np_square_def p(1))
  have add2: "np_add rnd (Num p) (Num q) = Num s2" by (simp add: s2(1))
  have sqrt2: "np_sqrt rnd (Num s2) = Num M" using s2(3) by (simp add: M(1))
  have div2: "np_divide rnd (Num M) (Num N) = Num r" using N0 by (simp add: r(1))
  have div3: "np_divide rnd (Num a) (Num r) = Num oe" using r0 by (simp add: oe(1))
  have div4: "np_divide rnd (Num n) (Num r) = Num on" using r0 by (simp add: on(1))
  have ren: "renormalize rnd cos_deg2rad lat (Num e) (Num n) = (Num oe, Num on)"
    unfolding renormalize_def Let_def c sq_e sq_n add1 sqrt1 div1 sq_a add2 sqrt2 div2 div3 div4
    by (rule refl)
  txt \<open>the exact quantities\<close>
  define E where "E = \<bar>e / c\<bar>"
  define T where "T = E * E + n * n"
  define W where "W = e * e + n * n"
  define g where "g = sqrt T / sqrt W"
  have E0: "E = 0 \<longleftrightarrow> e = 0" unfolding E_def using c0 by simp
  have W0: "0 < W" unfolding W_def using nz by (simp add: sum_squares_gt_zero_iff)
  have T0: "0 < T" unfolding T_def using nz E0 by (simp add: sum_squares_gt_zero_iff)
  have g0: "0 < g" unfolding g_def using W0 T0 by simp
  txt \<open>the adjusted magnitude\<close>
  have A1: "close \<rho> 1 E \<bar>a\<bar>" unfolding E_def by (rule a(4))
  have "close \<rho> 2 (E * E) (\<bar>a\<bar> * \<bar>a\<bar>)" using A1 A1 \<rho>1 by (rule close_mult_to) simp
  then have A2: "close \<rho> 2 (E * E) (a * a)" by simp
  have A3: "close \<rho> 3 (E * E) p" using A2 p(5) \<rho>1 by (rule close_trans_to) simp
  have B3: "close \<rho> 3 (n * n) q" using q(5) _ \<rho>1 by (rule close_mono) simp
  have C1: "close \<rho> 3 T (p + q)" unfolding T_def using A3 B3 by (rule close_add)
  have C2: "close \<rho> 4 T s2" using C1 s2(4) \<rho>1 by (rule close_trans_to) simp
  have C3: "close \<rho> 2 (sqrt T) (sqrt s2)" using C2 \<rho>1 by (rule close_sqrt_to) simp
  have C4: "close \<rho> 3 (sqrt T) M" using C3 M(4) \<rho>1 by (rule close_trans_to) simp
  txt \<open>the raw magnitude\<close>
  have D2: "close \<rho> 1 W (p0 + q)" unfolding W_def using p0(5) q(5) by (rule close_add)
  have D3: "close \<rho> 2 W s" using D2 s(4) \<rho>1 by (rule close_trans_to) simp
  have D4: "close \<rho> 1 (sqrt W) (sqrt s)" using D3 \<rho>1 by (rule close_sqrt_to) simp
  have D5: "close \<rho> 2 (sqrt W) N" using D4 N(4) \<rho>1 by (rule close_trans_to) simp
  txt \<open>the ratio\<close>
  have sW: "0 < sqrt W" using W0 by simp
  have E1: "close \<rho> 5 g (M / N)" unfolding g_def using C4 D5 sW N(3) \<rho>1 by (rule close_div_to) simp
  have E2: "close \<rho> 6 g r" using E1 r(4) \<rho>1 by (rule close_trans_to) simp
  txt \<open>the outputs\<close>
  have ar: "\<bar>a / r\<bar> = \<bar>a\<bar> / r" using r(3) by simp
  have nr: "\<bar>n / r\<bar> = \<bar>n\<bar> / r" using r(3) by simp
  have F1: "close \<rho> 7 (E / g) (\<bar>a\<bar> / r)" using A1 E2 g0 r(3) \<rho>1 by (rule close_div_to) simp
  have F2: "close \<rho> 8 (E / g) \<bar>oe\<bar>" using F1 oe(2)[unfolded ar] \<rho>1 by (rule close_trans_to) simp
  have "close \<rho> 0 \<bar>n\<bar> \<bar>n\<bar>" by (rule close_refl) simp
  then have G1: "close \<rho> 6 (\<bar>n\<bar> / g) (\<bar>n\<bar> / r)" using E2 g0 r(3) \<rho>1 by (rule close_div_to) simp
  have G2: "close \<rho> 8 (\<bar>n\<bar> / g) \<bar>on\<bar>" using G1 on(2)[unfolded nr] \<rho>1 by (rule close_trans_to) simp
  have "close \<rho> 16 (E / g * (E / g)) (\<bar>oe\<bar> * \<bar>oe\<bar>)" using F2 F2 \<rho>1 by (rule close_mult_to) simp
  then have H1: "close \<rho> 16 (E / g * (E / g)) (oe * oe)" by simp
  have "close \<rho> 16 (\<bar>n\<bar> / g * (\<bar>n\<bar> / g)) (\<bar>on\<bar> * \<bar>on\<bar>)" using G2 G2 \<rho>1 by (rule close_mult_to) simp
  then have H2: "close \<rho> 16 (\<bar>n\<bar> / g * (\<bar>n\<bar> / g)) (on * on)" by simp
  have H3: "close \<rho> 16 (E / g * (E / g) + \<bar>n\<bar> / g * (\<bar>n\<bar> / g)) (oe * oe + on * on)"
    using H1 H2 by (rule close_add)
  have g2: "g * g = T / W" unfolding g_def using T0 W0 by simp
  have "E / g * (E / g) + \<bar>n\<bar> / g * (\<bar>n\<bar> / g) = (E * E + \<bar>n\<bar> * \<bar>n\<bar>) / (g * g)"
    by (simp add: add_divide_distrib)
  also have "\<dots> = T / (T / W)" unfolding g2 T_def by simp
  also have "\<dots> = W" using T0 by simp
  finally have alg: "E / g * (E / g) + \<bar>n\<bar> / g * (\<bar>n\<bar> / g) = W" .
  have H4: "close \<rho> 8 (sqrt W) (sqrt (oe * oe + on * on))"
    using H3[unfolded alg] \<rho>1 by (rule close_sqrt_to) simp
  from ren H4 show ?thesis unfolding W_def \<rho>_def by blast
qed

text \<open>
  C3 (as the code has it).  At an index with latitude strictly between -90 and 90 degrees,
  where the cosine evaluates to a number of magnitude between \<open>2^-60\<close> and 1, with raw
  components that are zero or of magnitude between \<open>2^-100\<close> and \<open>2^100\<close>, not both zero,
  and a rounding of relative error at most \<open>u \<le> 1/2\<close> on the results in the range of the
  floats: both corrected components are finite numbers, and the magnitude of the
  corrected vector and the magnitude of the raw vector agree within the factor
  \<open>(1 / (1 - u))^8\<close>, each at most the other times that factor.
\<close>

theorem magnitude_preserved_to_rounding:
  assumes "length sample_lats = length ve" and "length vn = length ve" and "i < length ve"
    and "sample_lats ! i = Num lat" and "- 90 < lat" and "lat < 90"
    and "cos_deg2rad (Num lat) = Num c" and "1 / 2 ^ 60 \<le> \<bar>c\<bar>" and "\<bar>c\<bar> \<le> 1"
    and "rounds_within u rnd" and "0 \<le> u" and "u \<le> 1 / 2"
    and "ve ! i = Num e" and "vn ! i = Num n"
    and "e = 0 \<or> (1 / 2 ^ 100 \<le> \<bar>e\<bar> \<and> \<bar>e\<bar> \<le> 2 ^ 100)"
    and "n = 0 \<or> (1 / 2 ^ 100 \<le> \<bar>n\<bar> \<and> \<bar>n\<bar> \<le> 2 ^ 100)"
    and "(e, n) \<noteq> (0, 0)"
  shows "\<exists>e' n'. fst (correct_velocity rnd cos_deg2rad sample_lats ve vn) ! i = Num e'
           \<and> snd (correct_velocity rnd cos_deg2rad sample_lats ve vn) ! i = Num n'
           \<and> sqrt (e' * e' + n' * n') \<le> sqrt (e * e + n * n) * (1 / (1 - u)) ^ 8
           \<and> sqrt (e * e + n * n) \<le> sqrt (e' * e' + n' * n') * (1 / (1 - u)) ^ 8"
proof -
  from assms(15) have e: "zero_or_window 100 e" unfolding zero_or_window_def .
  from assms(16) have n: "zero_or_window 100 n" unfolding zero_or_window_def .
  from assms(17) have nz: "e \<noteq> 0 \<or> n \<noteq> 0" by simp
  from renormalize_close[of u rnd cos_deg2rad "Num lat" c e n, OF assms(10-12) assms(7-9) e n nz]
  obtain e' n' where r: "renormalize rnd cos_deg2rad (Num lat) (Num e) (Num n) = (Num e', Num n')"
    and c: "close (1 / (1 - u)) 8 (sqrt (e * e + n * n)) (sqrt (e' * e' + n' * n'))"
    by blast
  from r have "(fst (correct_velocity rnd cos_deg2rad sample_lats ve vn) ! i,
         snd (correct_velocity rnd cos_deg2rad sample_lats ve vn) ! i) = (Num e', Num n')"
    unfolding correct_velocity_nth[OF assms(1-3)] assms(4,13,14) .
  then have o: "fst (correct_velocity rnd cos_deg2rad sample_lats ve vn) ! i = Num e'"
    "snd (correct_velocity rnd cos_deg2rad sample_lats ve vn) ! i = Num n'" by simp_all
  from c have "sqrt (e' * e' + n' * n') \<le> sqrt (e * e + n * n) * (1 / (1 - u)) ^ 8"
    and "sqrt (e * e + n * n) \<le> sqrt (e' * e' + n' * n') * (1 / (1 - u)) ^ 8"
    unfolding close_def by blast+
  with o show ?thesis by blast
qed

lemma rounds_within_rnd_ex: "0 \<le> u \<Longrightarrow> rounds_within u rnd_ex"
  unfolding rounds_within_def
proof (intro allI impI)
  fix x :: real
  assume u: "0 \<le> u" and a: "1 / 2 ^ 1022 \<le> \<bar>x\<bar> \<and> \<bar>x\<bar> \<le> 2 ^ 1023"
  have "(2::real) ^ 1023 < 2 ^ 1024" by (rule power_strict_increasing) simp_all
  with a have h: "\<not> 2 ^ 1024 \<le> \<bar>x\<bar>" by linarith
  have "1 / (2::real) ^ 1075 \<le> 1 / 2 ^ 1022" by (rule inv_pow_le) simp
  with a have l: "\<not> \<bar>x\<bar> < 1 / 2 ^ 1075" by linarith
  have "rnd_ex x = Num x" unfolding rnd_ex_def using h l by (simp only: if_False)
  moreover have "\<bar>x - x\<bar> \<le> u * \<bar>x\<bar>" using u by simp
  ultimately show "\<exists>y. rnd_ex x = Num y \<and> \<bar>y - x\<bar> \<le> u * \<bar>x\<bar>" by blast
qed

lemma cos_deg2rad_ex_60: "cos_deg2rad_ex (Num 60) = Num (1 / 2)"
proof -
  have "(60::real) * pi / 180 = pi / 3" by simp
  then show ?thesis by (simp add: cos_60)
qed

theorem magnitude_preserved_to_rounding_witness:
  "length [Num 60] = length [Num 3] \<and> length [Num 4] = length [Num 3] \<and> 0 < length [Num 3]
   \<and> [Num 60] ! 0 = Num 60 \<and> - 90 < (60 :: real) \<and> (60 :: real) < 90
   \<and> cos_deg2rad_ex (Num 60) = Num (1 / 2)
   \<and> 1 / 2 ^ 60 \<le> \<bar>1 / 2 :: real\<bar> \<and> \<bar>1 / 2 :: real\<bar> \<le> 1
   \<and> rounds_within (1 / 2 ^ 53) rnd_ex \<and> 0 \<le> (1 / 2 ^ 53 :: real) \<and> (1 / 2 ^ 53 :: real) \<le> 1 / 2
   \<and> [Num 3] ! 0 = Num 3 \<and> [Num 4] ! 0 = Num 4
   \<and> ((3 :: real) = 0 \<or> (1 / 2 ^ 100 \<le> \<bar>3 :: real\<bar> \<and> \<bar>3 :: real\<bar> \<le> 2 ^ 100))
   \<and> ((4 :: real) = 0 \<or> (1 / 2 ^ 100 \<le> \<bar>4 :: real\<bar> \<and> \<bar>4 :: real\<bar> \<le> 2 ^ 100))
   \<and> ((3 :: real), (4 :: real)) \<noteq> (0, 0)
   \<and> (\<exists>e' n'. fst (correct_velocity rnd_ex cos_deg2rad_ex [Num 60] [Num 3] [Num 4]) ! 0 = Num e'
           \<and> snd (correct_velocity rnd_ex cos_deg2rad_ex [Num 60] [Num 3] [Num 4]) ! 0 = Num n'
           \<and> sqrt (e' * e' + n' * n') \<le> sqrt (3 * 3 + 4 * 4) * (1 / (1 - 1 / 2 ^ 53)) ^ 8
           \<and> sqrt (3 * 3 + 4 * 4) \<le> sqrt (e' * e' + n' * n') * (1 / (1 - 1 / 2 ^ 53)) ^ 8)"
proof -
  have h1: "length [Num 60] = length [Num 3]" "length [Num 4] = length [Num 3]"
    "0 < length [Num 3]" "[Num 60] ! 0 = Num 60" "- 90 < (60 :: real)" "(60 :: real) < 90"
    by simp_all
  have h2: "1 / 2 ^ 60 \<le> \<bar>1 / 2 :: real\<bar>" "\<bar>1 / 2 :: real\<bar> \<le> 1"
    by simp_all
  have h3: "0 \<le> (1 / 2 ^ 53 :: real)" "(1 / 2 ^ 53 :: real) \<le> 1 / 2"
    by simp_all
  have h4: "rounds_within (1 / 2 ^ 53) rnd_ex" using h3(1) by (rule rounds_within_rnd_ex)
  have h5: "[Num 3] ! 0 = Num 3" "[Num 4] ! 0 = Num 4"
    "(3 :: real) = 0 \<or> (1 / 2 ^ 100 \<le> \<bar>3 :: real\<bar> \<and> \<bar>3 :: real\<bar> \<le> 2 ^ 100)"
    "(4 :: real) = 0 \<or> (1 / 2 ^ 100 \<le> \<bar>4 :: real\<bar> \<and> \<bar>4 :: real\<bar> \<le> 2 ^ 100)"
    "((3 :: real), (4 :: real)) \<noteq> (0, 0)"
    by simp_all
  have r: "\<exists>e' n'. fst (correct_velocity rnd_ex cos_deg2rad_ex [Num 60] [Num 3] [Num 4]) ! 0 = Num e'
           \<and> snd (correct_velocity rnd_ex cos_deg2rad_ex [Num 60] [Num 3] [Num 4]) ! 0 = Num n'
           \<and> sqrt (e' * e' + n' * n') \<le> sqrt (3 * 3 + 4 * 4) * (1 / (1 - 1 / 2 ^ 53)) ^ 8
           \<and> sqrt (3 * 3 + 4 * 4) \<le> sqrt (e' * e' + n' * n') * (1 / (1 - 1 / 2 ^ 53)) ^ 8"
    using h1 cos_deg2rad_ex_60 h2 h4 h3 h5
    by (rule magnitude_preserved_to_rounding[of "[Num 60]" "[Num 3]" "[Num 4]" 0 60
          cos_deg2rad_ex "1 / 2" "1 / 2 ^ 53" rnd_ex 3 4])
  show ?thesis
    by (intro conjI) (rule h1 cos_deg2rad_ex_60 h2 h3 h4 h5 r)+
qed

text \<open>
  C3 (as stated) fails: at latitude 0 the raw vector \<open>(2^600, 0)\<close> has a square that
  overflows, so the magnitude \<open>norm\<close> is infinite, the factor \<open>renorm\<close> is
  infinity over infinity, and both corrected components are NaN.
\<close>

theorem overflow_loses_magnitude:
  "correct_velocity rnd_ex cos_deg2rad_ex [Num 0] [Num (2 ^ 600)] [Num 0] = ([NaN], [NaN])
   \<and> np_sqrt rnd_ex (np_add rnd_ex (np_square rnd_ex (Num (2 ^ 600))) (np_square rnd_ex (Num 0))) = PInf"
proof -
  have a: "(2::real) ^ 600 * 2 ^ 600 = 2 ^ 1200" by (simp add: power_add[symmetric])
  have abs1: "\<bar>(2::real) ^ 1200\<bar> = 2 ^ 1200" by (rule abs_of_pos) (rule zero_less_power, simp)
  have abs2: "\<bar>(2::real) ^ 600\<bar> = 2 ^ 600" by (rule abs_of_pos) (rule zero_less_power, simp)
  have pos: "0 < (2::real) ^ 1200" by (rule zero_less_power) simp
  have big: "(2::real) ^ 1024 \<le> 2 ^ 1200" by (rule pow_le) simp
  have b: "rnd_ex (2 ^ 1200) = PInf"
    unfolding rnd_ex_def abs1 using big pos by (simp only: if_True)
  have "(2::real) ^ 600 < 2 ^ 1024" by (rule power_strict_increasing) simp_all
  then have c1: "\<not> (2::real) ^ 1024 \<le> 2 ^ 600" by (simp only: not_le)
  have "1 / (2::real) ^ 1075 \<le> 1 / 2 ^ 0" by (rule inv_pow_le) simp
  moreover have "(2::real) ^ 0 \<le> 2 ^ 600" by (rule pow_le) simp
  ultimately have "1 / (2::real) ^ 1075 \<le> 2 ^ 600" by simp
  then have c2: "\<not> (2::real) ^ 600 < 1 / 2 ^ 1075" by (simp only: not_less)
  have c: "rnd_ex (2 ^ 600) = Num (2 ^ 600)"
    unfolding rnd_ex_def abs2 using c1 c2 by (simp only: if_False)
  have nz: "(2::real) ^ 600 \<noteq> 0" "(2::real) ^ 1200 \<noteq> 0" by simp_all
  have sq: "np_square rnd_ex (Num (2 ^ 600)) = PInf"
    unfolding np_square_def np_multiply.simps round_to_def a using nz(2) b by (simp only: if_False)
  have sq0: "np_square rnd_ex (Num 0) = Num 0" by (simp add: np_square_def round_to_def)
  have norm: "np_sqrt rnd_ex (np_add rnd_ex (np_square rnd_ex (Num (2 ^ 600))) (np_square rnd_ex (Num 0))) = PInf"
    unfolding sq sq0 by simp
  have cos0: "cos_deg2rad_ex (Num 0) = Num 1" by simp
  have d: "np_divide rnd_ex (Num (2 ^ 600)) (Num 1) = Num (2 ^ 600)"
    using nz(1) c by (simp add: round_to_def)
  have "renormalize rnd_ex cos_deg2rad_ex (Num 0) (Num (2 ^ 600)) (Num 0) = (NaN, NaN)"
    unfolding renormalize_def Let_def cos0 d norm unfolding sq sq0 by simp
  then have "correct_velocity rnd_ex cos_deg2rad_ex [Num 0] [Num (2 ^ 600)] [Num 0] = ([NaN], [NaN])"
    by (simp add: correct_velocity_def)
  with norm show ?thesis by blast
qed

end
